theory Spec2Isabelle
  imports Main
begin

unbundle bit_operations_syntax

section \<open>The checksummed-string codec\<close>

text \<open>
  The address module \<^verbatim>\<open>src/core/bech32.ts\<close> calls two functions of an object
  \<^verbatim>\<open>bech32\<close> that it imports: \<^verbatim>\<open>bech32.decode(str)\<close>, which returns an object with the
  fields \<^verbatim>\<open>prefix\<close> and \<^verbatim>\<open>words\<close> or throws, and \<^verbatim>\<open>bech32.encode(prefix, words)\<close>.
  The module's functions take that object as their first argument here, so that every
  theorem stated for an arbitrary codec \<open>b\<close> holds whatever the imported codec does.
  A thrown exception is the left summand of the result.
\<close>

record decoded =
  prefix :: string
  words :: "nat list"

record 'e codec =
  decode :: "string \<Rightarrow> 'e + decoded"
  encode :: "string \<Rightarrow> nat list \<Rightarrow> 'e + string"

text \<open>
  The codec's \<open>decode\<close> inverts its \<open>encode\<close> at a prefix and a payload: the pair is
  encoded to a string, and that string decodes to the same pair.
\<close>

definition roundtrips :: "'e codec \<Rightarrow> string \<Rightarrow> nat list \<Rightarrow> bool" where
  "roundtrips b q ws =
     (case encode b q ws of
        Inl e \<Rightarrow> False
      | Inr s \<Rightarrow> decode b s = Inr \<lparr>prefix = q, words = ws\<rparr>)"

subsection \<open>The codec of the package bech32\<close>

text \<open>
  Modelled from the spec: the external codec that the module imports from the package
  \<^verbatim>\<open>bech32\<close>, whose source is not part of the repository. Section 6 of the specification
  names it as the standard bech32 encoding: 5-bit words, a human-readable prefix, the
  separator \<^verbatim>\<open>1\<close>, a checksum of six characters, \<^verbatim>\<open>decode\<close> raising on malformed input. The
  definitions below follow the package's \<^verbatim>\<open>encode\<close> and \<^verbatim>\<open>decode\<close> (the reference algorithm of
  BIP-173 with its limit of 90 characters), check by check and in the package's order.
  Strings are lists of 8-bit characters and the case mappings are those of ASCII; a string
  that holds any other character is refused by both the package and this model. The
  checksum state, a 32-bit integer of the package, never leaves the range below \<open>2 ^ 30\<close>
  (\<open>polymodStep_take_bit\<close> below) and is an \<open>int\<close> here. Words are natural numbers; the
  address module hands to \<open>encode\<close> only words that \<open>decode\<close> returned.
\<close>

datatype bech32_error =
    TooShort
  | ExceedsLengthLimit
  | MixedCase
  | NoSeparator
  | MissingPrefix
  | DataTooShort
  | InvalidPrefix
  | UnknownCharacter char
  | InvalidChecksum
  | Non5BitWord

definition ALPHABET :: string where
  "ALPHABET = ''qpzry9x8gf2tvdw0s3jn54khce6mua7l''"

text \<open>\<^verbatim>\<open>ALPHABET_MAP[c]\<close>: the position of a character in the alphabet, if it has one.\<close>

fun ALPHABET_MAP :: "string \<Rightarrow> char \<Rightarrow> nat option" where
  "ALPHABET_MAP [] c = None"
| "ALPHABET_MAP (x # xs) c = (if x = c then Some 0 else map_option Suc (ALPHABET_MAP xs c))"

definition polymodStep :: "int \<Rightarrow> int" where
  "polymodStep pre =
     (let b = drop_bit 25 pre in
        push_bit 5 (pre AND 0x1ffffff)
        XOR ((- (drop_bit 0 b AND 1)) AND 0x3b6a57b2)
        XOR ((- (drop_bit 1 b AND 1)) AND 0x26508e6d)
        XOR ((- (drop_bit 2 b AND 1)) AND 0x1ea119fa)
        XOR ((- (drop_bit 3 b AND 1)) AND 0x3d4233dd)
        XOR ((- (drop_bit 4 b AND 1)) AND 0x2a1462b3))"

text \<open>The two loops of \<^verbatim>\<open>prefixChk\<close>; the first one refuses a character outside 33..126.\<close>

fun prefixChk_high :: "string \<Rightarrow> int \<Rightarrow> bech32_error + int" where
  "prefixChk_high [] chk = Inr chk"
| "prefixChk_high (c # cs) chk =
     (if of_char c < (33::nat) \<or> of_char c > (126::nat) then Inl InvalidPrefix
      else prefixChk_high cs (polymodStep chk XOR drop_bit 5 (of_char c)))"

fun prefixChk_low :: "string \<Rightarrow> int \<Rightarrow> int" where
  "prefixChk_low [] chk = chk"
| "prefixChk_low (v # vs) chk = prefixChk_low vs (polymodStep chk XOR (of_char v AND 0x1f))"

definition prefixChk :: "string \<Rightarrow> bech32_error + int" where
  "prefixChk p =
     (case prefixChk_high p 1 of
        Inl e \<Rightarrow> Inl e
      | Inr chk \<Rightarrow> Inr (prefixChk_low p (polymodStep chk)))"

definition toLowerCase_char :: "char \<Rightarrow> char" where
  "toLowerCase_char c =
     (if (65::nat) \<le> of_char c \<and> of_char c \<le> (90::nat)
      then char_of (of_char c + (32::nat)) else c)"

definition toUpperCase_char :: "char \<Rightarrow> char" where
  "toUpperCase_char c =
     (if (97::nat) \<le> of_char c \<and> of_char c \<le> (122::nat)
      then char_of (of_char c - (32::nat)) else c)"

definition toLowerCase :: "string \<Rightarrow> string" where
  "toLowerCase s = map toLowerCase_char s"

definition toUpperCase :: "string \<Rightarrow> string" where
  "toUpperCase s = map toUpperCase_char s"

text \<open>The loop of \<^verbatim>\<open>encode\<close> over the words: checksum state and the string built so far.\<close>

fun encode_words :: "nat list \<Rightarrow> int \<Rightarrow> string \<Rightarrow> bech32_error + (int \<times> string)" where
  "encode_words [] chk result = Inr (chk, result)"
| "encode_words (x # xs) chk result =
     (if drop_bit 5 x \<noteq> 0 then Inl Non5BitWord
      else encode_words xs (polymodStep chk XOR int x) (result @ [ALPHABET ! x]))"

text \<open>The loop \<^verbatim>\<open>for (i = 0; i < 6; ++i) chk = polymodStep(chk)\<close>, for any number of rounds.\<close>

fun polymod_rounds :: "nat \<Rightarrow> int \<Rightarrow> int" where
  "polymod_rounds 0 chk = chk"
| "polymod_rounds (Suc n) chk = polymod_rounds n (polymodStep chk)"

definition checksum_chars :: "int \<Rightarrow> string" where
  "checksum_chars chk =
     map (\<lambda>i. ALPHABET ! nat (drop_bit ((5 - i) * 5) chk AND 0x1f)) [0..<6]"

definition bech32_encode :: "string \<Rightarrow> nat list \<Rightarrow> bech32_error + string" where
  "bech32_encode prefix0 ws =
     (if length prefix0 + 7 + length ws > 90 then Inl ExceedsLengthLimit
      else
        (case prefixChk (toLowerCase prefix0) of
           Inl e \<Rightarrow> Inl e
         | Inr chk0 \<Rightarrow>
             (case encode_words ws chk0 (toLowerCase prefix0 @ ''1'') of
                Inl e \<Rightarrow> Inl e
              | Inr (chk1, result) \<Rightarrow>
                  Inr (result @ checksum_chars (polymod_rounds 6 chk1 XOR 1)))))"

fun lastIndexOf :: "string \<Rightarrow> char \<Rightarrow> nat option" where
  "lastIndexOf [] c = None"
| "lastIndexOf (x # xs) c =
     (case lastIndexOf xs c of
        Some i \<Rightarrow> Some (Suc i)
      | None \<Rightarrow> (if x = c then Some 0 else None))"

text \<open>
  The loop of \<^verbatim>\<open>__decode\<close> over the characters after the separator: every character enters
  the checksum, and all but the last six are pushed onto the words.
\<close>

fun decode_words :: "string \<Rightarrow> int \<Rightarrow> nat list \<Rightarrow> bech32_error + (int \<times> nat list)" where
  "decode_words [] chk ws = Inr (chk, ws)"
| "decode_words (c # cs) chk ws =
     (case ALPHABET_MAP ALPHABET c of
        None \<Rightarrow> Inl (UnknownCharacter c)
      | Some v \<Rightarrow>
          decode_words cs (polymodStep chk XOR int v) (if length cs < 6 then ws else ws @ [v]))"

definition decode_split :: "string \<Rightarrow> nat \<Rightarrow> bech32_error + decoded" where
  "decode_split str split =
     (if length (drop (split + 1) str) < 6 then Inl DataTooShort
      else
        (case prefixChk (take split str) of
           Inl e \<Rightarrow> Inl e
         | Inr chk0 \<Rightarrow>
             (case decode_words (drop (split + 1) str) chk0 [] of
                Inl e \<Rightarrow> Inl e
              | Inr (chk, ws) \<Rightarrow>
                  (if chk \<noteq> 1 then Inl InvalidChecksum
                   else Inr \<lparr>prefix = take split str, words = ws\<rparr>))))"

definition bech32_decode :: "string \<Rightarrow> bech32_error + decoded" where
  "bech32_decode str =
     (if length str < 8 then Inl TooShort
      else if length str > 90 then Inl ExceedsLengthLimit
      else if str \<noteq> toLowerCase str \<and> str \<noteq> toUpperCase str then Inl MixedCase
      else
        (case lastIndexOf (toLowerCase str) (CHR ''1'') of
           None \<Rightarrow> Inl NoSeparator
         | Some split \<Rightarrow>
             (if split = 0 then Inl MissingPrefix
              else decode_split (toLowerCase str) split)))"

definition bech32 :: "bech32_error codec" where
  "bech32 = \<lparr>decode = bech32_decode, encode = bech32_encode\<rparr>"

section \<open>The address module\<close>

text \<open>
  \<^verbatim>\<open>checkLength\<close> returns \<^verbatim>\<open>false | string\<close>. The validators test such a value for
  truthiness (\<^verbatim>\<open>||\<close>, \<^verbatim>\<open>!!\<close>): \<^verbatim>\<open>false\<close> and the empty string are falsy. The optional
  parameter \<^verbatim>\<open>prefix?: string\<close> is a \<open>string option\<close>; the conditional
  \<^verbatim>\<open>prefix ? ... : ...\<close> takes its second branch for \<^verbatim>\<open>undefined\<close> and for the empty string.
\<close>

datatype js_value = JFalse | JString string

fun truthy :: "js_value \<Rightarrow> bool" where
  "truthy JFalse = False"
| "truthy (JString s) = (s \<noteq> [])"

definition js_or :: "js_value \<Rightarrow> js_value \<Rightarrow> js_value" where
  "js_or x y = (if truthy x then x else y)"

fun toString :: "js_value \<Rightarrow> string" where
  "toString JFalse = ''false''"
| "toString (JString s) = s"

fun truthy_prefix :: "string option \<Rightarrow> string option" where
  "truthy_prefix None = None"
| "truthy_prefix (Some p) = (if p = [] then None else Some p)"

text \<open>
  \<^verbatim>\<open>s.substring(start, end)\<close>: both indices are clamped to \<open>0..length s\<close> and swapped when
  the first exceeds the second.
\<close>

definition substring :: "string \<Rightarrow> int \<Rightarrow> int \<Rightarrow> string" where
  "substring s start end' =
     (let n = int (length s);
          i = max 0 (min start n);
          j = max 0 (min end' n)
      in take (nat (max i j - min i j)) (drop (nat (min i j)) s))"

text \<open>
  \<^verbatim>\<open>/([a-z]{2,20}suffix)/g.test(s)\<close> on a fresh regular expression: a search, at every
  position of \<open>s\<close>, for 2 to 20 lower-case letters followed by the suffix. The expression
  has no anchors.
\<close>

definition is_lower :: "char \<Rightarrow> bool" where
  "is_lower ch = ((97::nat) \<le> of_char ch \<and> of_char ch \<le> (122::nat))"

definition match_here :: "string \<Rightarrow> string \<Rightarrow> bool" where
  "match_here suffix s =
     list_ex (\<lambda>n. n \<le> length s \<and> list_all is_lower (take n s)
                  \<and> take (length suffix) (drop n s) = suffix) (rev [2..<21])"

definition regex_test :: "string \<Rightarrow> string \<Rightarrow> bool" where
  "regex_test suffix s = list_ex (\<lambda>i. match_here suffix (drop i s)) [0..<Suc (length s)]"

definition checkLength :: "'e codec \<Rightarrow> string \<Rightarrow> nat \<Rightarrow> js_value" where
  "checkLength b data len =
     (case decode b data of
        Inl e \<Rightarrow> JFalse
      | Inr vals \<Rightarrow> (if length (words vals) = len then JString (prefix vals) else JFalse))"

subsection \<open>AccAddress\<close>

definition AccAddress_validate :: "'e codec \<Rightarrow> string \<Rightarrow> string option \<Rightarrow> bool" where
  "AccAddress_validate b data prefix' =
     (case truthy_prefix prefix' of
        Some p \<Rightarrow> js_or (checkLength b data 32) (checkLength b data 52) = JString p
      | None \<Rightarrow> truthy (js_or (checkLength b data 32) (checkLength b data 52)))"

definition AccAddress_fromValAddress :: "'e codec \<Rightarrow> string \<Rightarrow> 'e + string" where
  "AccAddress_fromValAddress b address =
     (case decode b address of
        Inl e \<Rightarrow> Inl e
      | Inr vals \<Rightarrow>
          encode b
            (substring (prefix vals) 0 (int (length (prefix vals)) - int (length ''valoper'')))
            (words vals))"

definition AccAddress_getPrefix :: "'e codec \<Rightarrow> string \<Rightarrow> 'e + string" where
  "AccAddress_getPrefix b address =
     (case decode b address of
        Inl e \<Rightarrow> Inl e
      | Inr vals \<Rightarrow> Inr (prefix vals))"

subsection \<open>AccPubKey\<close>

definition AccPubKey_validate :: "'e codec \<Rightarrow> string \<Rightarrow> string option \<Rightarrow> bool" where
  "AccPubKey_validate b data prefix' =
     (case truthy_prefix prefix' of
        Some p \<Rightarrow> checkLength b data 32 = JString (p @ ''pub'')
      | None \<Rightarrow> regex_test ''pub'' (toString (js_or (checkLength b data 32) (JString ''''))))"

definition AccPubKey_fromAccAddress :: "'e codec \<Rightarrow> string \<Rightarrow> string \<Rightarrow> 'e + string" where
  "AccPubKey_fromAccAddress b address prefix' =
     (case decode b address of
        Inl e \<Rightarrow> Inl e
      | Inr vals \<Rightarrow> encode b (prefix' @ ''pub'') (words vals))"

definition AccPubKey_getPrefix :: "'e codec \<Rightarrow> string \<Rightarrow> 'e + string" where
  "AccPubKey_getPrefix b address =
     (case decode b address of
        Inl e \<Rightarrow> Inl e
      | Inr vals \<Rightarrow>
          Inr (substring (prefix vals) 0 (int (length (prefix vals)) - int (length ''pub''))))"

subsection \<open>ValAddress\<close>

definition ValAddress_validate :: "'e codec \<Rightarrow> string \<Rightarrow> string option \<Rightarrow> bool" where
  "ValAddress_validate b data prefix' =
     (case truthy_prefix prefix' of
        Some p \<Rightarrow> checkLength b data 32 = JString (p @ ''valoper'')
      | None \<Rightarrow> regex_test ''valoper'' (toString (js_or (checkLength b data 32) (JString ''''))))"

definition ValAddress_fromAccAddress :: "'e codec \<Rightarrow> string \<Rightarrow> string \<Rightarrow> 'e + string" where
  "ValAddress_fromAccAddress b address prefix' =
     (case decode b address of
        Inl e \<Rightarrow> Inl e
      | Inr vals \<Rightarrow> encode b (prefix' @ ''valoper'') (words vals))"

definition ValAddress_getPrefix :: "'e codec \<Rightarrow> string \<Rightarrow> 'e + string" where
  "ValAddress_getPrefix b address =
     (case decode b address of
        Inl e \<Rightarrow> Inl e
      | Inr vals \<Rightarrow>
          Inr (substring (prefix vals) 0 (int (length (prefix vals)) - int (length ''valoper''))))"

subsection \<open>ValPubKey\<close>

definition ValPubKey_validate :: "'e codec \<Rightarrow> string \<Rightarrow> string option \<Rightarrow> bool" where
  "ValPubKey_validate b data prefix' =
     (case truthy_prefix prefix' of
        Some p \<Rightarrow> checkLength b data 32 = JString (p @ ''valoperpub'')
      | None \<Rightarrow>
          regex_test ''valoperpub'' (toString (js_or (checkLength b data 32) (JString ''''))))"

definition ValPubKey_fromValAddress :: "'e codec \<Rightarrow> string \<Rightarrow> string \<Rightarrow> 'e + string" where
  "ValPubKey_fromValAddress b valAddress prefix' =
     (case decode b valAddress of
        Inl e \<Rightarrow> Inl e
      | Inr vals \<Rightarrow> encode b (prefix' @ ''valoperpub'') (words vals))"

definition ValPubKey_getPrefix :: "'e codec \<Rightarrow> string \<Rightarrow> 'e + string" where
  "ValPubKey_getPrefix b address =
     (case decode b address of
        Inl e \<Rightarrow> Inl e
      | Inr vals \<Rightarrow>
          Inr (substring (prefix vals) 0
                 (int (length (prefix vals)) - int (length ''valoperpub''))))"

subsection \<open>ValConsAddress\<close>

definition ValConsAddress_validate :: "'e codec \<Rightarrow> string \<Rightarrow> string option \<Rightarrow> bool" where
  "ValConsAddress_validate b data prefix' =
     (case truthy_prefix prefix' of
        Some p \<Rightarrow> checkLength b data 32 = JString (p @ ''valcons'')
      | None \<Rightarrow>
          regex_test ''valcons'' (toString (js_or (checkLength b data 32) (JString ''''))))"

definition ValConsAddress_getPrefix :: "'e codec \<Rightarrow> string \<Rightarrow> 'e + string" where
  "ValConsAddress_getPrefix b address =
     (case decode b address of
        Inl e \<Rightarrow> Inl e
      | Inr vals \<Rightarrow>
          Inr (substring (prefix vals) 0 (int (length (prefix vals)) - int (length ''valcons''))))"

section \<open>The message classes\<close>

text \<open>
  A message object is the record of its public fields. An Amino object is a type tag with
  a value object of the same three (or two) fields; a Data object is the fields together
  with the tag \<^verbatim>\<open>@type\<close>. The optional argument \<^verbatim>\<open>_?: boolean\<close> is evaluated and dropped.
\<close>

record 'v amino =
  amino_type :: string
  amino_value :: 'v

record MsgClaimDelegationRewards =
  delegatorAddress :: string
  validatorAddress :: string
  denom :: string

record MsgClaimDelegationRewards_Data = MsgClaimDelegationRewards +
  at_type :: string

definition MsgClaimDelegationRewards_fromAmino ::
    "MsgClaimDelegationRewards amino \<Rightarrow> bool option \<Rightarrow> MsgClaimDelegationRewards" where
  "MsgClaimDelegationRewards_fromAmino data _ =
     \<lparr>delegatorAddress = delegatorAddress (amino_value data),
      validatorAddress = validatorAddress (amino_value data),
      denom = denom (amino_value data)\<rparr>"

definition MsgClaimDelegationRewards_toAmino ::
    "MsgClaimDelegationRewards \<Rightarrow> bool option \<Rightarrow> MsgClaimDelegationRewards amino" where
  "MsgClaimDelegationRewards_toAmino this _ =
     \<lparr>amino_type = ''alliance/MsgClaimDelegationRewards'',
      amino_value =
        \<lparr>delegatorAddress = delegatorAddress this,
         validatorAddress = validatorAddress this,
         denom = denom this\<rparr>\<rparr>"

definition MsgClaimDelegationRewards_fromData ::
    "MsgClaimDelegationRewards_Data \<Rightarrow> bool option \<Rightarrow> MsgClaimDelegationRewards" where
  "MsgClaimDelegationRewards_fromData proto _ =
     \<lparr>delegatorAddress = delegatorAddress proto,
      validatorAddress = validatorAddress proto,
      denom = denom proto\<rparr>"

definition MsgClaimDelegationRewards_toData ::
    "MsgClaimDelegationRewards \<Rightarrow> bool option \<Rightarrow> MsgClaimDelegationRewards_Data" where
  "MsgClaimDelegationRewards_toData this _ =
     \<lparr>delegatorAddress = delegatorAddress this,
      validatorAddress = validatorAddress this,
      denom = denom this,
      at_type = ''/alliance.alliance.MsgClaimDelegationRewards''\<rparr>"

record MsgCreateDenom =
  sender :: string
  subdenom :: string

record MsgCreateDenom_Data = MsgCreateDenom +
  at_type :: string

definition MsgCreateDenom_toAmino ::
    "MsgCreateDenom \<Rightarrow> bool option \<Rightarrow> MsgCreateDenom amino" where
  "MsgCreateDenom_toAmino this _ =
     \<lparr>amino_type = ''osmosis/tokenfactory/create-denom'',
      amino_value = \<lparr>sender = sender this, subdenom = subdenom this\<rparr>\<rparr>"

definition MsgCreateDenom_fromData ::
    "MsgCreateDenom_Data \<Rightarrow> bool option \<Rightarrow> MsgCreateDenom" where
  "MsgCreateDenom_fromData data _ = \<lparr>sender = sender data, subdenom = subdenom data\<rparr>"

definition MsgCreateDenom_toData ::
    "MsgCreateDenom \<Rightarrow> bool option \<Rightarrow> MsgCreateDenom_Data" where
  "MsgCreateDenom_toData this _ =
     \<lparr>sender = sender this,
      subdenom = subdenom this,
      at_type = ''/cosmwasm.tokenfactory.v1beta1.MsgCreateDenom''\<rparr>"

definition MsgCreateDenom_fromAmino :: "MsgCreateDenom amino \<Rightarrow> MsgCreateDenom" where
  "MsgCreateDenom_fromAmino data =
     \<lparr>sender = sender (amino_value data), subdenom = subdenom (amino_value data)\<rparr>"

section \<open>Sample strings\<close>

text \<open>
  The strings and the payload of the examples, witnesses and counterexamples: an account
  address with a payload of 32 words, the strings derived from it, its upper-case form, an
  account address with a root prefix of 25 characters and a payload of 52 words, a string
  with a payload of 80 words, an operator address with a root prefix of 26 letters, and a
  string with a payload of 20 words.
\<close>

abbreviation (input) sample_words :: "nat list" where
  "sample_words \<equiv>
     [6, 21, 26, 3, 0, 29, 4, 21, 13, 17, 24, 16, 16, 0, 7, 8, 6, 6, 12, 0, 2, 7, 6, 11, 26, 19, 14,
      31, 2, 21, 11, 13]"

abbreviation (input) account_address :: string where
  "account_address \<equiv>
     ''terra1x46rqay4d3cssq8gxxvqz8xt6nwlz4td20k38v''"

abbreviation (input) operator_address :: string where
  "operator_address \<equiv>
     ''terravaloper1x46rqay4d3cssq8gxxvqz8xt6nwlz4td2q6vhl''"

abbreviation (input) account_pubkey :: string where
  "account_pubkey \<equiv>
     ''terrapub1x46rqay4d3cssq8gxxvqz8xt6nwlz4tdh39t77''"

abbreviation (input) operator_pubkey :: string where
  "operator_pubkey \<equiv>
     ''terravaloperpub1x46rqay4d3cssq8gxxvqz8xt6nwlz4td3gwy0h''"

abbreviation (input) consensus_address :: string where
  "consensus_address \<equiv>
     ''terravalcons1x46rqay4d3cssq8gxxvqz8xt6nwlz4td7nfsm7''"

abbreviation (input) no_prefix_string :: string where
  "no_prefix_string \<equiv>
     ''1x46rqay4d3cssq8gxxvqz8xt6nwlz4td3ckeej''"

abbreviation (input) upper_case_address :: string where
  "upper_case_address \<equiv>
     ''TERRA1X46RQAY4D3CSSQ8GXXVQZ8XT6NWLZ4TD20K38V''"

abbreviation (input) long_root_address :: string where
  "long_root_address \<equiv>
     ''abcdefghijklmnopqrstuvwxy1qqqqqqqqqqqqqqqqqqqqqqqqqqqqqqqqqqqqqqqqqqqqqqqqqqqqqxums9''"

abbreviation (input) long_payload_string :: string where
  "long_payload_string \<equiv>
     ''a1qqqqqqqqqqqqqqqqqqqqqqqqqqqqqqqqqqqqqqqqqqqqqqqqqqqqqqqqqqqqqqqqqqqqqqqqqqqqqqqqsxayn4''"

abbreviation (input) long_root_operator :: string where
  "long_root_operator \<equiv>
     ''abcdefghijklmnopqrstuvwxyzvaloper1x46rqay4d3cssq8gxxvqz8xt6nwlz4tdtrsgsl''"

abbreviation (input) twenty_word_string :: string where
  "twenty_word_string \<equiv>
     ''terra1qqqqqqqqqqqqqqqqqqqqmerrtm''"

section \<open>Facts used throughout\<close>

lemma checkLength_Inl: "decode b data = Inl e \<Longrightarrow> checkLength b data n = JFalse"
  by (simp add: checkLength_def)

lemma checkLength_Inr:
  "decode b data = Inr v \<Longrightarrow>
   checkLength b data n = (if length (words v) = n then JString (prefix v) else JFalse)"
  by (simp add: checkLength_def)

lemma match_here_short: "length s < 2 \<Longrightarrow> \<not> match_here suffix s"
  by (auto simp: match_here_def list_ex_iff)

lemma regex_test_empty: "\<not> regex_test suffix []"
  by (simp add: regex_test_def match_here_short)

text \<open>
  What the search of \<open>regex_test\<close> finds: the suffix somewhere in the string, with 2 to 20
  lower-case letters right before it. Since any text may precede them, the search succeeds
  exactly when two lower-case letters stand before the suffix.
\<close>

lemma match_here_iff:
  "match_here suffix s \<longleftrightarrow>
     (\<exists>n. 2 \<le> n \<and> n \<le> 20 \<and> n \<le> length s \<and> list_all is_lower (take n s)
        \<and> take (length suffix) (drop n s) = suffix)"
proof -
  have "set (rev [2..<21]) = {n. 2 \<le> n \<and> n \<le> 20}"
    unfolding set_rev set_upt by auto
  then show ?thesis
    unfolding match_here_def list_ex_iff by blast
qed

lemma match_here_append:
  "match_here suffix s \<longleftrightarrow>
     (\<exists>l r. s = l @ suffix @ r \<and> 2 \<le> length l \<and> length l \<le> 20 \<and> list_all is_lower l)"
proof
  assume "match_here suffix s"
  then obtain n where n: "2 \<le> n" "n \<le> 20" "n \<le> length s" "list_all is_lower (take n s)"
    "take (length suffix) (drop n s) = suffix"
    by (auto simp: match_here_iff)
  have "drop n s = take (length suffix) (drop n s) @ drop (length suffix) (drop n s)"
    by (rule append_take_drop_id [symmetric])
  then have "drop n s = suffix @ drop (length suffix) (drop n s)"
    using n(5) by simp
  then have "s = take n s @ suffix @ drop (length suffix) (drop n s)"
    by (metis append_take_drop_id)
  moreover have "length (take n s) = n" using n(3) by simp
  ultimately show "\<exists>l r. s = l @ suffix @ r \<and> 2 \<le> length l \<and> length l \<le> 20 \<and> list_all is_lower l"
    using n(1,2,4) by metis
next
  assume "\<exists>l r. s = l @ suffix @ r \<and> 2 \<le> length l \<and> length l \<le> 20 \<and> list_all is_lower l"
  then obtain l r where "s = l @ suffix @ r" "2 \<le> length l" "length l \<le> 20" "list_all is_lower l"
    by blast
  then show "match_here suffix s"
    unfolding match_here_iff by (intro exI [of _ "length l"]) simp
qed

lemma regex_test_positions:
  "regex_test suffix s \<longleftrightarrow> (\<exists>i. i \<le> length s \<and> match_here suffix (drop i s))"
proof -
  have "set [0..<Suc (length s)] = {i. i \<le> length s}"
    unfolding set_upt by auto
  then show ?thesis
    unfolding regex_test_def list_ex_iff by blast
qed


lemma regex_test_iff:
  "regex_test suffix s \<longleftrightarrow>
     (\<exists>u l r. s = u @ l @ suffix @ r \<and> 2 \<le> length l \<and> length l \<le> 20 \<and> list_all is_lower l)"
proof
  assume "regex_test suffix s"
  then obtain i where i: "i \<le> length s" "match_here suffix (drop i s)"
    unfolding regex_test_positions by blast
  then obtain l r where lr: "drop i s = l @ suffix @ r" "2 \<le> length l" "length l \<le> 20"
    "list_all is_lower l"
    unfolding match_here_append by blast
  have "s = take i s @ l @ suffix @ r"
    using lr(1) by (metis append_take_drop_id)
  then show "\<exists>u l r. s = u @ l @ suffix @ r \<and> 2 \<le> length l \<and> length l \<le> 20 \<and> list_all is_lower l"
    using lr(2,3,4) by blast
next
  assume "\<exists>u l r. s = u @ l @ suffix @ r \<and> 2 \<le> length l \<and> length l \<le> 20 \<and> list_all is_lower l"
  then obtain u l r where s: "s = u @ l @ suffix @ r" and l: "2 \<le> length l" "length l \<le> 20"
    "list_all is_lower l"
    by blast
  have "drop (length u) s = l @ suffix @ r" using s by simp
  then have "match_here suffix (drop (length u) s)"
    unfolding match_here_append using l by blast
  moreover have "length u \<le> length s" using s by simp
  ultimately show "regex_test suffix s"
    unfolding regex_test_positions by blast
qed


lemma regex_test_two_letters:
  "regex_test suffix s \<longleftrightarrow>
     (\<exists>u c d r. s = u @ [c, d] @ suffix @ r \<and> is_lower c \<and> is_lower d)"
proof
  assume "regex_test suffix s"
  then obtain u l r where s: "s = u @ l @ suffix @ r" and l: "2 \<le> length l" "list_all is_lower l"
    unfolding regex_test_iff by blast
  define k where "k = length l - 2"
  have "length (drop k l) = 2" using l(1) by (simp add: k_def)
  moreover have "\<And>xs :: string. length xs = 2 \<Longrightarrow> \<exists>c d. xs = [c, d]"
    by (auto simp: length_Suc_conv numeral_2_eq_2)
  ultimately obtain c d where cd: "drop k l = [c, d]"
    by blast
  have "list_all is_lower (take k l @ drop k l)" using l(2) by simp
  then have "list_all is_lower (drop k l)" unfolding list_all_append by blast
  then have lower: "is_lower c" "is_lower d" using cd by simp_all
  have "l = take k l @ [c, d]" using cd by (metis append_take_drop_id)
  then have "s = (u @ take k l) @ [c, d] @ suffix @ r"
    using s by (metis append.assoc)
  then show "\<exists>u c d r. s = u @ [c, d] @ suffix @ r \<and> is_lower c \<and> is_lower d"
    using lower by blast
next
  assume "\<exists>u c d r. s = u @ [c, d] @ suffix @ r \<and> is_lower c \<and> is_lower d"
  then obtain u c d r where s: "s = u @ [c, d] @ suffix @ r" and "is_lower c" "is_lower d"
    by blast
  then have "2 \<le> length [c, d] \<and> length [c, d] \<le> 20 \<and> list_all is_lower [c, d]"
    by simp
  then show "regex_test suffix s"
    unfolding regex_test_iff using s by blast
qed

lemma AccAddress_validate_iff:
  "AccAddress_validate b data pfx \<longleftrightarrow>
     (\<exists>v. decode b data = Inr v \<and> (length (words v) = 32 \<or> length (words v) = 52)
        \<and> (case truthy_prefix pfx of Some p \<Rightarrow> prefix v = p | None \<Rightarrow> prefix v \<noteq> []))"
proof (cases "decode b data")
  case (Inl e)
  then show ?thesis
    by (simp add: AccAddress_validate_def checkLength_Inl js_or_def split: option.splits)
next
  case (Inr v)
  then show ?thesis
    by (cases pfx)
      (auto simp: AccAddress_validate_def checkLength_Inr js_or_def
          split: option.splits if_splits)
qed

text \<open>The body shared by the four validators of the suffixed families.\<close>

lemma suffixed_validate_iff:
  "(case truthy_prefix pfx of
        Some p \<Rightarrow> checkLength b data 32 = JString (p @ suffix)
      | None \<Rightarrow> regex_test suffix (toString (js_or (checkLength b data 32) (JString ''''))))
   \<longleftrightarrow>
     (\<exists>v. decode b data = Inr v \<and> length (words v) = 32
        \<and> (case truthy_prefix pfx of Some p \<Rightarrow> prefix v = p @ suffix
            | None \<Rightarrow> regex_test suffix (prefix v)))"
proof (cases "decode b data")
  case (Inl e)
  then show ?thesis
    by (simp add: checkLength_Inl js_or_def regex_test_empty split: option.splits)
next
  case (Inr v)
  then show ?thesis
    by (auto simp: checkLength_Inr js_or_def regex_test_empty split: option.splits if_splits)
qed

lemma ValAddress_validate_iff:
  "ValAddress_validate b data pfx \<longleftrightarrow>
     (\<exists>v. decode b data = Inr v \<and> length (words v) = 32
        \<and> (case truthy_prefix pfx of Some p \<Rightarrow> prefix v = p @ ''valoper''
            | None \<Rightarrow> regex_test ''valoper'' (prefix v)))"
  unfolding ValAddress_validate_def by (rule suffixed_validate_iff)

lemmas suffixed_validate_defs =
  AccPubKey_validate_def ValAddress_validate_def ValPubKey_validate_def
  ValConsAddress_validate_def

section \<open>The bech32 codec inverts its encoding\<close>

text \<open>
  The checksum state has 30 bits. A value of at most 25 bits that is added to the state
  before a step of the checksum is shifted by the step and nothing else, which is why the
  six checksum characters that \<open>bech32_encode\<close> appends bring the state of
  \<open>bech32_decode\<close> to 1.
\<close>

lemma and_take_bit_30:
  fixes a g :: int
  assumes "0 \<le> g" and "g < 2 ^ 30"
  shows "take_bit 30 (a AND g) = a AND g"
proof (rule take_bit_int_eq_self)
  show "0 \<le> a AND g" using assms(1) by simp
  show "a AND g < 2 ^ 30" using assms by (rule AND_upper2'')
qed

lemma polymodStep_take_bit: "take_bit 30 (polymodStep x) = polymodStep x"
proof -
  have p: "take_bit 30 (push_bit 5 (x AND 0x1ffffff)) = push_bit 5 (x AND 0x1ffffff)"
  proof (rule take_bit_int_eq_self)
    show "0 \<le> push_bit 5 (x AND 0x1ffffff)" by simp
    have "x AND 0x1ffffff < 2 ^ 25" by (rule AND_upper2'') simp_all
    then show "push_bit 5 (x AND 0x1ffffff) < 2 ^ 30" by (simp add: push_bit_eq_mult)
  qed
  have g: "take_bit 30 (a AND 0x3b6a57b2) = a AND 0x3b6a57b2"
    "take_bit 30 (a AND 0x26508e6d) = a AND 0x26508e6d"
    "take_bit 30 (a AND 0x1ea119fa) = a AND 0x1ea119fa"
    "take_bit 30 (a AND 0x3d4233dd) = a AND 0x3d4233dd"
    "take_bit 30 (a AND 0x2a1462b3) = a AND 0x2a1462b3" for a :: int
    by (rule and_take_bit_30; simp)+
  show ?thesis
    unfolding polymodStep_def Let_def take_bit_xor p g ..
qed

lemma polymodStep_xor_low:
  assumes "take_bit 25 y = y"
  shows "polymodStep (x XOR y) = polymodStep x XOR push_bit 5 y"
proof -
  have d: "drop_bit 25 y = 0"
    using assms by (metis drop_bit_take_bit diff_self_eq_0 drop_bit_0 take_bit_0 le_refl)
  have "(0x1ffffff :: int) = mask 25" by (simp add: mask_eq_exp_minus_1)
  then have m: "y AND 0x1ffffff = y" using assms by (simp add: take_bit_eq_mask)
  have "(x XOR y) AND 0x1ffffff = (x AND 0x1ffffff) XOR (y AND 0x1ffffff)"
    by (simp add: bit.conj_xor_distrib2)
  then have a: "push_bit 5 ((x XOR y) AND 0x1ffffff) = push_bit 5 (x AND 0x1ffffff) XOR push_bit 5 y"
    using m by simp
  have b: "drop_bit 25 (x XOR y) = drop_bit 25 x" using d by simp
  show ?thesis
    unfolding polymodStep_def Let_def a b
    by (simp add: ac_simps)
qed


lemma drop_bit_low_group:
  fixes c :: int
  shows "push_bit 5 (drop_bit (k + 5) c) XOR (drop_bit k c AND 0x1f) = drop_bit k c"
proof -
  have m: "(0x1f :: int) = mask 5" by (simp add: mask_eq_exp_minus_1)
  show ?thesis
    unfolding m
    by (rule bit_eqI) (auto simp: bit_simps ac_simps)
qed

lemma drop_bit_30_bits:
  fixes c :: int
  assumes "take_bit 30 c = c" and "5 \<le> k"
  shows "take_bit 25 (drop_bit k c) = drop_bit k c"
proof (rule bit_eqI)
  fix n
  have "bit c (k + n) \<Longrightarrow> k + n < 30"
    using assms(1) by (metis bit_take_bit_iff)
  then show "bit (take_bit 25 (drop_bit k c)) n \<longleftrightarrow> bit (drop_bit k c) n"
    using assms(2) by (auto simp: bit_simps)
qed

lemma drop_bit_30_zero:
  fixes c :: int
  assumes "take_bit 30 c = c"
  shows "drop_bit 30 c = 0"
  using assms by (metis drop_bit_take_bit diff_self_eq_0 drop_bit_0 take_bit_0 le_refl)

lemma polymod_rounds_Suc: "polymod_rounds (Suc n) x = polymodStep (polymod_rounds n x)"
  by (induction n arbitrary: x) simp_all

lemma checksum_step:
  fixes c :: int
  assumes "take_bit 30 c = c"
  shows "polymodStep (r XOR drop_bit (k + 5) c) XOR (drop_bit k c AND 0x1f)
       = polymodStep r XOR drop_bit k c"
proof -
  have "take_bit 25 (drop_bit (k + 5) c) = drop_bit (k + 5) c"
    using assms by (intro drop_bit_30_bits) simp_all
  then have "polymodStep (r XOR drop_bit (k + 5) c)
      = polymodStep r XOR push_bit 5 (drop_bit (k + 5) c)"
    by (rule polymodStep_xor_low)
  then show ?thesis
    using drop_bit_low_group [of k c] by (simp add: xor.assoc)
qed


lemma checksum_chain:
  fixes c :: int
  assumes "take_bit 30 c = c"
  shows "polymodStep (polymodStep (polymodStep (polymodStep (polymodStep (polymodStep s
           XOR (drop_bit 25 c AND 0x1f)) XOR (drop_bit 20 c AND 0x1f))
           XOR (drop_bit 15 c AND 0x1f)) XOR (drop_bit 10 c AND 0x1f))
           XOR (drop_bit 5 c AND 0x1f)) XOR (drop_bit 0 c AND 0x1f)
       = polymod_rounds 6 s XOR c"
proof -
  have r: "polymod_rounds 6 s
      = polymodStep (polymodStep (polymodStep (polymodStep (polymodStep (polymodStep s)))))"
    by (simp add: eval_nat_numeral)
  have "polymodStep (s XOR drop_bit (25 + 5) c) XOR (drop_bit 25 c AND 0x1f)
      = polymodStep s XOR drop_bit 25 c"
    using assms by (rule checksum_step)
  then have s1: "polymodStep s XOR (drop_bit 25 c AND 0x1f) = polymodStep s XOR drop_bit 25 c"
    using drop_bit_30_zero [OF assms] by simp
  note st = checksum_step [OF assms]
  show ?thesis
    unfolding r s1
    using st [of _ 20] st [of _ 15] st [of _ 10] st [of _ 5] st [of _ 0]
    by simp
qed

lemma ALPHABET_MAP_bound: "ALPHABET_MAP xs ch = Some n \<Longrightarrow> n < length xs"
  by (induction xs arbitrary: n) (auto split: if_splits)

lemma ALPHABET_table:
  "list_all (\<lambda>n. ALPHABET_MAP ALPHABET (ALPHABET ! n) = Some n
       \<and> ALPHABET ! n \<noteq> CHR ''1''
       \<and> toLowerCase_char (ALPHABET ! n) = ALPHABET ! n) [0..<32]"
  by code_simp

lemma ALPHABET_nth:
  assumes "n < 32"
  shows "ALPHABET_MAP ALPHABET (ALPHABET ! n) = Some n"
    and "ALPHABET ! n \<noteq> CHR ''1''"
    and "toLowerCase_char (ALPHABET ! n) = ALPHABET ! n"
  using ALPHABET_table assms unfolding list_all_iff by auto


lemma five_bits:
  fixes x :: int
  shows "nat (x AND 0x1f) < 32" and "int (nat (x AND 0x1f)) = x AND 0x1f"
proof -
  have "0 \<le> x AND 0x1f" by simp
  moreover have "x AND 0x1f < 32" by (rule AND_upper2'') simp_all
  ultimately show "nat (x AND 0x1f) < 32" and "int (nat (x AND 0x1f)) = x AND 0x1f"
    by linarith+
qed

lemma checksum_chars_length: "length (checksum_chars c) = 6"
  by (simp add: checksum_chars_def)

lemma checksum_chars_unfold:
  "checksum_chars c =
     [ALPHABET ! nat (drop_bit 25 c AND 0x1f), ALPHABET ! nat (drop_bit 20 c AND 0x1f),
      ALPHABET ! nat (drop_bit 15 c AND 0x1f), ALPHABET ! nat (drop_bit 10 c AND 0x1f),
      ALPHABET ! nat (drop_bit 5 c AND 0x1f), ALPHABET ! nat (drop_bit 0 c AND 0x1f)]"
  by (simp add: checksum_chars_def upt_rec)

lemma decode_checksum:
  fixes c :: int
  assumes "take_bit 30 c = c"
  shows "decode_words (checksum_chars c) s acc = Inr (polymod_rounds 6 s XOR c, acc)"
  unfolding checksum_chars_unfold
  by (simp only: decode_words.simps ALPHABET_nth(1) [OF five_bits(1)] five_bits(2)
      option.case checksum_chain [OF assms] list.size) simp

lemma encode_words_eq:
  assumes "\<forall>w\<in>set ws. w < 32"
  shows "encode_words ws chk res
       = Inr (foldl (\<lambda>k w. polymodStep k XOR int w) chk ws, res @ map (\<lambda>w. ALPHABET ! w) ws)"
  using assms
proof (induction ws arbitrary: chk res)
  case Nil
  then show ?case by simp
next
  case (Cons w ws)
  then have "w < 32" by simp
  then have "drop_bit 5 w = 0" by (simp add: drop_bit_eq_div)
  with Cons show ?case by simp
qed

lemma decode_words_payload:
  assumes "\<forall>w\<in>set ws. w < 32" and "6 \<le> length rest"
  shows "decode_words (map (\<lambda>w. ALPHABET ! w) ws @ rest) chk acc
       = decode_words rest (foldl (\<lambda>k w. polymodStep k XOR int w) chk ws) (acc @ ws)"
  using assms
proof (induction ws arbitrary: chk acc)
  case Nil
  then show ?case by simp
next
  case (Cons w ws)
  then have "w < 32" by simp
  then have "ALPHABET_MAP ALPHABET (ALPHABET ! w) = Some w" by (rule ALPHABET_nth(1))
  moreover have "\<not> length (map (\<lambda>w. ALPHABET ! w) ws @ rest) < 6"
    using Cons.prems(2) by simp
  ultimately show ?case using Cons by simp
qed

lemma decode_words_bound:
  assumes "decode_words cs chk acc = Inr (r, ws)" and "\<forall>w\<in>set acc. w < 32"
  shows "\<forall>w\<in>set ws. w < 32"
  using assms
proof (induction cs arbitrary: chk acc)
  case Nil
  then show ?case by simp
next
  case (Cons c cs)
  from Cons.prems(1) obtain v where v: "ALPHABET_MAP ALPHABET c = Some v"
    by (auto split: option.splits)
  have lt: "v < 32" using ALPHABET_MAP_bound [OF v] by (simp add: ALPHABET_def)
  from Cons.prems(1) v
  have d: "decode_words cs (polymodStep chk XOR int v) (if length cs < 6 then acc else acc @ [v])
      = Inr (r, ws)"
    by simp
  have "\<forall>w\<in>set (if length cs < 6 then acc else acc @ [v]). w < 32"
    using Cons.prems(2) lt by simp
  from Cons.IH [OF d this] show ?case .
qed

lemma prefixChk_high_ok:
  assumes "\<forall>c\<in>set q. (33::nat) \<le> of_char c \<and> of_char c \<le> (126::nat)"
  shows "\<exists>r. prefixChk_high q chk = Inr r"
  using assms by (induction q arbitrary: chk) auto

lemma prefixChk_ok:
  assumes "\<forall>c\<in>set q. (33::nat) \<le> of_char c \<and> of_char c \<le> (126::nat)"
  shows "\<exists>r. prefixChk q = Inr r"
  using prefixChk_high_ok [OF assms, of 1] by (auto simp: prefixChk_def)

lemma lastIndexOf_None: "ch \<notin> set t \<Longrightarrow> lastIndexOf t ch = None"
  by (induction t) auto

lemma lastIndexOf_separator:
  "ch \<notin> set t \<Longrightarrow> lastIndexOf (q @ ch # t) ch = Some (length q)"
  by (induction q) (simp_all add: lastIndexOf_None)

lemma checksum_chars_set:
  "\<forall>ch\<in>set (checksum_chars c). ch \<noteq> CHR ''1'' \<and> toLowerCase_char ch = ch"
  unfolding checksum_chars_unfold
  using ALPHABET_nth(2,3) [OF five_bits(1)] by simp

lemma payload_chars_set:
  assumes "\<forall>w\<in>set ws. w < 32"
  shows "\<forall>ch\<in>set (map (\<lambda>w. ALPHABET ! w) ws). ch \<noteq> CHR ''1'' \<and> toLowerCase_char ch = ch"
  using assms ALPHABET_nth(2,3) by auto

lemma toLowerCase_id: "(\<forall>ch\<in>set s. toLowerCase_char ch = ch) \<Longrightarrow> toLowerCase s = s"
  by (simp add: toLowerCase_def map_idI)

lemma bech32_roundtrips:
  assumes q: "q \<noteq> []"
      "\<forall>ch\<in>set q. (33::nat) \<le> of_char ch \<and> of_char ch \<le> (126::nat) \<and> toLowerCase_char ch = ch"
    and ws: "\<forall>w\<in>set ws. w < 32"
    and len: "length q + 7 + length ws \<le> 90"
  shows "roundtrips bech32 q ws"
proof -
  obtain chk0 where chk0: "prefixChk q = Inr chk0"
    using prefixChk_ok [of q] q(2) by blast
  define k where "k = foldl (\<lambda>k w. polymodStep k XOR int w) chk0 ws"
  define c where "c = polymod_rounds 6 k XOR 1"
  define payload where "payload = map (\<lambda>w. ALPHABET ! w) ws"
  define str where "str = q @ CHR ''1'' # payload @ checksum_chars c"
  have lower_q: "toLowerCase q = q"
    using q(2) by (simp add: toLowerCase_id)
  have enc: "bech32_encode q ws = Inr str"
    using len
    by (simp add: bech32_encode_def lower_q chk0 encode_words_eq [OF ws] k_def c_def
        payload_def str_def)
  have "polymod_rounds 6 k = polymodStep (polymod_rounds 5 k)"
    using polymod_rounds_Suc [of 5 k] by (simp add: eval_nat_numeral)
  then have "take_bit 30 (polymod_rounds 6 k) = polymod_rounds 6 k"
    by (simp add: polymodStep_take_bit)
  then have c30: "take_bit 30 c = c"
    by (simp add: c_def)
  have tail: "\<forall>ch\<in>set (payload @ checksum_chars c). ch \<noteq> CHR ''1'' \<and> toLowerCase_char ch = ch"
    using payload_chars_set [OF ws] checksum_chars_set [of c] by (auto simp: payload_def)
  have one: "toLowerCase_char (CHR ''1'') = CHR ''1''"
    by (simp add: toLowerCase_char_def)
  have lower_str: "toLowerCase str = str"
    using q(2) tail one by (intro toLowerCase_id) (auto simp: str_def)
  have split: "lastIndexOf str (CHR ''1'') = Some (length q)"
    unfolding str_def using tail by (intro lastIndexOf_separator) auto
  have len_str: "length str = length q + 7 + length ws"
    by (simp add: str_def payload_def checksum_chars_length)
  have words: "decode_words (payload @ checksum_chars c) chk0 [] = Inr (1, ws)"
  proof -
    have "decode_words (payload @ checksum_chars c) chk0 []
        = decode_words (checksum_chars c) k ([] @ ws)"
      unfolding payload_def k_def
      by (rule decode_words_payload [OF ws]) (simp add: checksum_chars_length)
    also have "\<dots> = Inr (polymod_rounds 6 k XOR c, ws)"
      using decode_checksum [OF c30] by simp
    also have "polymod_rounds 6 k XOR c = 1"
      by (simp add: c_def)
    finally show ?thesis .
  qed
  have "decode_split str (length q) = Inr \<lparr>prefix = q, words = ws\<rparr>"
    by (simp add: decode_split_def str_def chk0 words checksum_chars_length)
  then have dec: "bech32_decode str = Inr \<lparr>prefix = q, words = ws\<rparr>"
    using q(1) len by (simp add: bech32_decode_def lower_str split len_str)
  show ?thesis
    by (simp add: roundtrips_def bech32_def enc dec)
qed

lemma bech32_decode_words:
  assumes "bech32_decode a = Inr v"
  shows "\<forall>w\<in>set (words v). w < 32"
proof -
  from assms obtain s n where "decode_split s n = Inr v"
    by (auto simp: bech32_decode_def split: if_splits option.splits)
  then obtain r chk0 where "decode_words (drop (n + 1) s) chk0 [] = Inr (r, words v)"
    by (auto simp: decode_split_def split: if_splits sum.splits prod.splits)
  then show ?thesis
    using decode_words_bound by fastforce
qed

subsection \<open>Encoding what was decoded\<close>

text \<open>
  Conversely, the characters that \<open>bech32_decode\<close> accepts after the separator are
  words of the alphabet, and the last six of them are the checksum that
  \<open>bech32_encode\<close> computes: a lower-case string that decodes is the encoding of its
  prefix and payload.
\<close>

lemma ALPHABET_MAP_nth: "ALPHABET_MAP xs ch = Some n \<Longrightarrow> xs ! n = ch"
  by (induction xs arbitrary: n) (auto split: if_splits)

lemma lastIndexOf_Some: "lastIndexOf s ch = Some i \<Longrightarrow> i < length s \<and> s ! i = ch"
  by (induction s arbitrary: i) (auto split: option.splits if_splits)

lemma decode_words_shape:
  assumes "decode_words cs chk acc = Inr (r, ws)"
  shows "\<exists>vs. cs = map (\<lambda>v. ALPHABET ! v) vs \<and> (\<forall>v\<in>set vs. v < 32)
            \<and> ws = acc @ take (length vs - 6) vs
            \<and> r = foldl (\<lambda>k w. polymodStep k XOR int w) chk vs"
  using assms
proof (induction cs arbitrary: chk acc)
  case Nil
  then show ?case by simp
next
  case (Cons c cs)
  from Cons.prems obtain v where v: "ALPHABET_MAP ALPHABET c = Some v"
    by (auto split: option.splits)
  have lt: "v < 32" using ALPHABET_MAP_bound [OF v] by (simp add: ALPHABET_def)
  have c: "ALPHABET ! v = c" using v by (rule ALPHABET_MAP_nth)
  from Cons.prems v
  have "decode_words cs (polymodStep chk XOR int v) (if length cs < 6 then acc else acc @ [v])
      = Inr (r, ws)"
    by simp
  from Cons.IH [OF this] obtain vs where vs: "cs = map (\<lambda>v. ALPHABET ! v) vs"
      "\<forall>v\<in>set vs. v < 32"
      "ws = (if length cs < 6 then acc else acc @ [v]) @ take (length vs - 6) vs"
      "r = foldl (\<lambda>k w. polymodStep k XOR int w) (polymodStep chk XOR int v) vs"
    by blast
  have len: "length cs = length vs" using vs(1) by simp
  have 1: "ws = acc @ take (length (v # vs) - 6) (v # vs)"
  proof (cases "length vs < 6")
    case True
    then show ?thesis using vs(3) len by simp
  next
    case False
    then have "Suc (length vs) - 6 = Suc (length vs - 6)" by simp
    then show ?thesis using vs(3) len False by simp
  qed
  have 2: "c # cs = map (\<lambda>v. ALPHABET ! v) (v # vs)" using c vs(1) by simp
  have 3: "\<forall>w\<in>set (v # vs). w < 32" using lt vs(2) by simp
  have 4: "r = foldl (\<lambda>k w. polymodStep k XOR int w) chk (v # vs)" using vs(4) by simp
  from 2 3 1 4 show ?case by (intro exI [where x = "v # vs"] conjI)
qed

lemma five_bit_value: "u < (32::nat) \<Longrightarrow> take_bit 5 (int u) = int u"
  by (intro take_bit_int_eq_self) simp_all

lemma drop_bit_five:
  fixes x :: int
  assumes "take_bit 5 x = x"
  shows "drop_bit 5 x = 0"
proof -
  have "drop_bit 5 (take_bit 5 x) = 0" by (simp add: drop_bit_take_bit)
  then show ?thesis using assms by simp
qed

lemma drop_bit_group:
  fixes a x :: int
  assumes "drop_bit 5 x = 0"
  shows "drop_bit 5 (push_bit 5 a XOR x) = a"
  using assms by (simp add: drop_bit_push_bit)

lemma and_group:
  fixes a x :: int
  assumes "take_bit 5 x = x"
  shows "(push_bit 5 a XOR x) AND 0x1f = x"
proof -
  have m: "(0x1f :: int) = mask 5" by (simp add: mask_eq_exp_minus_1)
  have "take_bit 5 (push_bit 5 a XOR x) = take_bit 5 (push_bit 5 a) XOR take_bit 5 x"
    by (rule take_bit_xor)
  also have "take_bit 5 (push_bit 5 a) = 0" by (simp add: take_bit_push_bit)
  finally have "take_bit 5 (push_bit 5 a XOR x) = x" using assms by simp
  then show ?thesis unfolding m by (simp only: take_bit_eq_mask)
qed

lemma take_bit_group:
  fixes a x :: int
  assumes "take_bit 5 x = x" and "take_bit n a = a"
  shows "take_bit (n + 5) (push_bit 5 a XOR x) = push_bit 5 a XOR x"
proof -
  have "take_bit (n + 5) (take_bit 5 x) = take_bit 5 x" by (simp add: take_bit_take_bit)
  then have x: "take_bit (n + 5) x = x" using assms(1) by simp
  have "take_bit (n + 5) (push_bit 5 a) = push_bit 5 (take_bit n a)"
    by (simp add: take_bit_push_bit)
  then have a: "take_bit (n + 5) (push_bit 5 a) = push_bit 5 a" using assms(2) by simp
  show ?thesis unfolding take_bit_xor x a ..
qed

lemma packed_groups:
  fixes x0 x1 x2 x3 x4 x5 :: int
  assumes x: "take_bit 5 x0 = x0" "take_bit 5 x1 = x1" "take_bit 5 x2 = x2"
    "take_bit 5 x3 = x3" "take_bit 5 x4 = x4" "take_bit 5 x5 = x5"
  defines "c1 \<equiv> push_bit 5 x0 XOR x1"
    and "c2 \<equiv> push_bit 5 (push_bit 5 x0 XOR x1) XOR x2"
    and "c3 \<equiv> push_bit 5 (push_bit 5 (push_bit 5 x0 XOR x1) XOR x2) XOR x3"
    and "c4 \<equiv> push_bit 5 (push_bit 5 (push_bit 5 (push_bit 5 x0 XOR x1) XOR x2) XOR x3) XOR x4"
    and "c \<equiv> push_bit 5 (push_bit 5 (push_bit 5 (push_bit 5 (push_bit 5 x0 XOR x1) XOR x2)
                XOR x3) XOR x4) XOR x5"
  shows "take_bit 30 c = c"
    and "drop_bit 25 c AND 0x1f = x0"
    and "drop_bit 20 c AND 0x1f = x1"
    and "drop_bit 15 c AND 0x1f = x2"
    and "drop_bit 10 c AND 0x1f = x3"
    and "drop_bit 5 c AND 0x1f = x4"
    and "drop_bit 0 c AND 0x1f = x5"
proof -
  note z = x [THEN drop_bit_five]
  have d5: "drop_bit 5 c = c4" unfolding c_def c4_def using z(6) by (rule drop_bit_group)
  have d4: "drop_bit 5 c4 = c3" unfolding c4_def c3_def using z(5) by (rule drop_bit_group)
  have d3: "drop_bit 5 c3 = c2" unfolding c3_def c2_def using z(4) by (rule drop_bit_group)
  have d2: "drop_bit 5 c2 = c1" unfolding c2_def c1_def using z(3) by (rule drop_bit_group)
  have d1: "drop_bit 5 c1 = x0" unfolding c1_def using z(2) by (rule drop_bit_group)
  have e10: "drop_bit 10 c = drop_bit 5 (drop_bit 5 c)" by (simp add: drop_bit_drop_bit)
  have e15: "drop_bit 15 c = drop_bit 5 (drop_bit 5 (drop_bit 5 c))"
    by (simp add: drop_bit_drop_bit)
  have e20: "drop_bit 20 c = drop_bit 5 (drop_bit 5 (drop_bit 5 (drop_bit 5 c)))"
    by (simp add: drop_bit_drop_bit)
  have e25: "drop_bit 25 c = drop_bit 5 (drop_bit 5 (drop_bit 5 (drop_bit 5 (drop_bit 5 c))))"
    by (simp add: drop_bit_drop_bit)
  have m: "(0x1f :: int) = mask 5" by (simp add: mask_eq_exp_minus_1)
  show "drop_bit 25 c AND 0x1f = x0"
    unfolding e25 d5 d4 d3 d2 d1 m using x(1) by (simp only: take_bit_eq_mask)
  show "drop_bit 20 c AND 0x1f = x1"
    unfolding e20 d5 d4 d3 d2 unfolding c1_def using x(2) by (rule and_group)
  show "drop_bit 15 c AND 0x1f = x2"
    unfolding e15 d5 d4 d3 unfolding c2_def using x(3) by (rule and_group)
  show "drop_bit 10 c AND 0x1f = x3"
    unfolding e10 d5 d4 unfolding c3_def using x(4) by (rule and_group)
  show "drop_bit 5 c AND 0x1f = x4"
    unfolding d5 unfolding c4_def using x(5) by (rule and_group)
  show "drop_bit 0 c AND 0x1f = x5"
    unfolding drop_bit_0 id_apply c_def using x(6) by (rule and_group)
  have t1: "take_bit (5 + 5) c1 = c1"
    unfolding c1_def using x(2,1) by (rule take_bit_group)
  have t2: "take_bit (5 + 5 + 5) c2 = c2"
    unfolding c2_def using x(3) t1 [unfolded c1_def] by (rule take_bit_group)
  have t3: "take_bit (5 + 5 + 5 + 5) c3 = c3"
    unfolding c3_def using x(4) t2 [unfolded c2_def] by (rule take_bit_group)
  have t4: "take_bit (5 + 5 + 5 + 5 + 5) c4 = c4"
    unfolding c4_def using x(5) t3 [unfolded c3_def] by (rule take_bit_group)
  have "take_bit (5 + 5 + 5 + 5 + 5 + 5) c = c"
    unfolding c_def using x(6) t4 [unfolded c4_def] by (rule take_bit_group)
  then show "take_bit 30 c = c" by simp
qed


lemma six_elements: "length us = 6 \<Longrightarrow> \<exists>a b c d e f. us = [a, b, c, d, e, f]"
  by (auto simp: length_Suc_conv eval_nat_numeral)

lemma checksum_unique:
  assumes us: "\<forall>u\<in>set us. u < 32" "length us = 6"
    and one: "foldl (\<lambda>k w. polymodStep k XOR int w) k us = 1"
  shows "map (\<lambda>v. ALPHABET ! v) us = checksum_chars (polymod_rounds 6 k XOR 1)"
proof -
  from six_elements [OF us(2)] obtain u0 u1 u2 u3 u4 u5 where
    eq: "us = [u0, u1, u2, u3, u4, u5]" by blast
  define c where "c = push_bit 5 (push_bit 5 (push_bit 5 (push_bit 5 (push_bit 5 (int u0)
      XOR int u1) XOR int u2) XOR int u3) XOR int u4) XOR int u5"
  have x: "take_bit 5 (int u0) = int u0" "take_bit 5 (int u1) = int u1"
    "take_bit 5 (int u2) = int u2" "take_bit 5 (int u3) = int u3"
    "take_bit 5 (int u4) = int u4" "take_bit 5 (int u5) = int u5"
    using us(1) by (simp_all add: eq five_bit_value)
  note p = packed_groups [OF x, folded c_def]
  have "foldl (\<lambda>k w. polymodStep k XOR int w) k us = polymod_rounds 6 k XOR c"
    using checksum_chain [OF p(1), of k] unfolding p(2-7) by (simp add: eq)
  then have "polymod_rounds 6 k XOR c = 1" using one by simp
  then have "polymod_rounds 6 k XOR (polymod_rounds 6 k XOR c) = polymod_rounds 6 k XOR 1"
    by simp
  then have c: "polymod_rounds 6 k XOR 1 = c"
    by (simp add: xor.assoc [symmetric])
  show ?thesis
    unfolding c checksum_chars_unfold p(2-7) by (simp add: eq)
qed

lemma bech32_encode_decode:
  assumes dec: "bech32_decode a = Inr v" and lower: "toLowerCase a = a"
  shows "bech32_encode (prefix v) (words v) = Inr a"
proof -
  from dec lower obtain n where
    len: "length a \<le> 90" and n: "lastIndexOf a (CHR ''1'') = Some n"
    and split: "decode_split a n = Inr v"
    by (auto simp: bech32_decode_def split: if_splits option.splits)
  from split obtain chk0 ws where
    chk0: "prefixChk (take n a) = Inr chk0"
    and w: "decode_words (drop (n + 1) a) chk0 [] = Inr (1, ws)"
    and v: "v = \<lparr>prefix = take n a, words = ws\<rparr>"
    and six: "6 \<le> length (drop (n + 1) a)"
    by (auto simp: decode_split_def split: if_splits sum.splits prod.splits)
  from decode_words_shape [OF w] obtain vs where
    vs: "drop (n + 1) a = map (\<lambda>v. ALPHABET ! v) vs" "\<forall>v\<in>set vs. v < 32"
      "ws = take (length vs - 6) vs"
      "1 = foldl (\<lambda>k w. polymodStep k XOR int w) chk0 vs"
    by auto
  define us where "us = drop (length vs - 6) vs"
  define k where "k = foldl (\<lambda>k w. polymodStep k XOR int w) chk0 ws"
  have len_vs: "6 \<le> length vs" using six vs(1) by (metis length_map)
  have cat: "vs = ws @ us" by (simp add: vs(3) us_def)
  have us: "\<forall>u\<in>set us. u < 32" "length us = 6"
    using vs(2) len_vs by (auto simp: us_def dest: in_set_dropD)
  have ws: "\<forall>w\<in>set ws. w < 32"
    using vs(2) by (auto simp: vs(3) dest: in_set_takeD)
  have "foldl (\<lambda>k w. polymodStep k XOR int w) k us = 1"
    using vs(4) unfolding cat k_def by simp
  from checksum_unique [OF us this]
  have chk: "map (\<lambda>v. ALPHABET ! v) us = checksum_chars (polymod_rounds 6 k XOR 1)" .
  from lastIndexOf_Some [OF n] have sep: "n < length a" "a ! n = CHR ''1''" by simp_all
  then have "a = take n a @ CHR ''1'' # drop (Suc n) a"
    by (metis id_take_nth_drop)
  then have a: "a = take n a @ CHR ''1'' # map (\<lambda>v. ALPHABET ! v) ws
      @ checksum_chars (polymod_rounds 6 k XOR 1)"
    using vs(1) chk by (simp add: cat)
  have "toLowerCase (take n a) = take n (toLowerCase a)"
    by (simp add: toLowerCase_def take_map)
  then have lower_p: "toLowerCase (take n a) = take n a" using lower by simp
  have "length a = n + 1 + length vs"
    using sep(1) arg_cong [OF vs(1), of length] by simp
  then have limit: "\<not> 90 < length (take n a) + 7 + length ws"
    using len len_vs sep(1) by (simp add: vs(3))
  have "bech32_encode (take n a) ws
      = Inr ((take n a @ ''1'') @ map (\<lambda>v. ALPHABET ! v) ws
          @ checksum_chars (polymod_rounds 6 k XOR 1))"
    using limit by (simp add: bech32_encode_def lower_p chk0 encode_words_eq [OF ws] k_def)
  then show ?thesis using a by (simp add: v)
qed

section \<open>Message round trips\<close>

text \<open>
  C10. For every \<open>MsgClaimDelegationRewards\<close> \<open>m\<close>, \<open>fromAmino (toAmino m)\<close> and
  \<open>fromData (toData m)\<close> are \<open>m\<close> again (delegator address, validator address and denom),
  \<open>toAmino\<close> and \<open>toData\<close> always emit the tags \<^verbatim>\<open>alliance/MsgClaimDelegationRewards\<close> and
  \<^verbatim>\<open>/alliance.alliance.MsgClaimDelegationRewards\<close>, and for every \<open>MsgCreateDenom\<close> \<open>d\<close> both
  round trips are \<open>d\<close> again (sender and subdenom).
\<close>

theorem msg_roundtrips:
  fixes m :: MsgClaimDelegationRewards and d :: MsgCreateDenom
  shows "MsgClaimDelegationRewards_fromAmino (MsgClaimDelegationRewards_toAmino m x) y = m
       \<and> MsgClaimDelegationRewards_fromData (MsgClaimDelegationRewards_toData m x) y = m
       \<and> amino_type (MsgClaimDelegationRewards_toAmino m x) = ''alliance/MsgClaimDelegationRewards''
       \<and> MsgClaimDelegationRewards_Data.at_type (MsgClaimDelegationRewards_toData m x)
           = ''/alliance.alliance.MsgClaimDelegationRewards''
       \<and> MsgCreateDenom_fromAmino (MsgCreateDenom_toAmino d x) = d
       \<and> MsgCreateDenom_fromData (MsgCreateDenom_toData d x) y = d"
  by (simp add: MsgClaimDelegationRewards_fromAmino_def MsgClaimDelegationRewards_toAmino_def
      MsgClaimDelegationRewards_fromData_def MsgClaimDelegationRewards_toData_def
      MsgCreateDenom_fromAmino_def MsgCreateDenom_toAmino_def
      MsgCreateDenom_fromData_def MsgCreateDenom_toData_def)

section \<open>Sample strings of the bech32 codec\<close>

text \<open>
  The concrete inputs of the examples below, decoded once: an account address of 32
  words, a string with a payload of 20 words, a string without separator, a string
  with an empty payload, and an account address of 52 words.
\<close>

lemma decode_account:
  "decode bech32 account_address
     = Inr \<lparr>prefix = ''terra'', words = sample_words\<rparr>"
  by code_simp

lemma decode_twenty_words:
  "decode bech32 twenty_word_string
     = Inr \<lparr>prefix = ''terra'', words = replicate 20 0\<rparr>"
  by code_simp

lemma decode_not_bech32: "decode bech32 ''not-a-valid-bech32-string'' = Inl NoSeparator"
  by code_simp

lemma decode_no_words: "decode bech32 ''a12uel5l'' = Inr \<lparr>prefix = ''a'', words = []\<rparr>"
  by code_simp

lemma decode_long_prefix:
  "decode bech32 long_root_address
     = Inr \<lparr>prefix = ''abcdefghijklmnopqrstuvwxy'', words = replicate 52 0\<rparr>"
  by code_simp

section \<open>Validation\<close>

text \<open>
  C1, as amended. \<open>AccAddress_validate\<close> accepts exactly the payload lengths of 32 and 52
  words: it returns true if and only if the input decodes, the payload has 32 or 52 words
  and the prefix check passes (the decoded prefix equals the expected prefix when one is
  given, and is not empty otherwise). The validators of the other four families accept
  exactly a payload of 32 words: each returns true if and only if the input decodes, the
  payload has 32 words and the prefix check of the family passes.
\<close>

theorem validate_payload_lengths:
  "(AccAddress_validate b data pfx \<longleftrightarrow>
     (\<exists>v. decode b data = Inr v \<and> (length (words v) = 32 \<or> length (words v) = 52)
        \<and> (case truthy_prefix pfx of Some p \<Rightarrow> prefix v = p | None \<Rightarrow> prefix v \<noteq> [])))
 \<and> (AccPubKey_validate b data pfx \<longleftrightarrow>
     (\<exists>v. decode b data = Inr v \<and> length (words v) = 32
        \<and> (case truthy_prefix pfx of Some p \<Rightarrow> prefix v = p @ ''pub''
            | None \<Rightarrow> regex_test ''pub'' (prefix v))))
 \<and> (ValAddress_validate b data pfx \<longleftrightarrow>
     (\<exists>v. decode b data = Inr v \<and> length (words v) = 32
        \<and> (case truthy_prefix pfx of Some p \<Rightarrow> prefix v = p @ ''valoper''
            | None \<Rightarrow> regex_test ''valoper'' (prefix v))))
 \<and> (ValPubKey_validate b data pfx \<longleftrightarrow>
     (\<exists>v. decode b data = Inr v \<and> length (words v) = 32
        \<and> (case truthy_prefix pfx of Some p \<Rightarrow> prefix v = p @ ''valoperpub''
            | None \<Rightarrow> regex_test ''valoperpub'' (prefix v))))
 \<and> (ValConsAddress_validate b data pfx \<longleftrightarrow>
     (\<exists>v. decode b data = Inr v \<and> length (words v) = 32
        \<and> (case truthy_prefix pfx of Some p \<Rightarrow> prefix v = p @ ''valcons''
            | None \<Rightarrow> regex_test ''valcons'' (prefix v))))"
  unfolding suffixed_validate_defs
  using AccAddress_validate_iff [of b data pfx]
    suffixed_validate_iff [where pfx = pfx and b = b and data = data and suffix = "''pub''"]
    suffixed_validate_iff [where pfx = pfx and b = b and data = data and suffix = "''valoper''"]
    suffixed_validate_iff [where pfx = pfx and b = b and data = data and suffix = "''valoperpub''"]
    suffixed_validate_iff [where pfx = pfx and b = b and data = data and suffix = "''valcons''"]
  by blast

text \<open>
  The claim as stated, with 20 words in place of 32, fails in both directions: an account
  address with a payload of 32 words is accepted, and a string with the prefix
  \<^verbatim>\<open>terra\<close> and a payload of 20 words is refused.
\<close>

theorem validate_twenty_words_counterexample:
  "AccAddress_validate bech32 account_address None
   \<and> decode bech32 account_address
       = Inr \<lparr>prefix = ''terra'', words = sample_words\<rparr>
   \<and> length sample_words = 32
   \<and> \<not> AccAddress_validate bech32 twenty_word_string None
   \<and> decode bech32 twenty_word_string
       = Inr \<lparr>prefix = ''terra'', words = replicate 20 0\<rparr>
   \<and> length (replicate 20 (0::nat)) = 20"
  by (simp add: AccAddress_validate_iff decode_account decode_twenty_words)

text \<open>
  C2. Every validator returns a boolean for every input and every optional prefix: the
  functions are total and their result type has no error summand, the exception of the
  decoder being caught in \<open>checkLength\<close>. Whenever the decoder raises, all five validators
  return false; whenever the payload has neither 32 nor 52 words the account validator
  returns false; whenever it does not have 32 words the other four return false.
\<close>

theorem validate_false_on_failure:
  "(decode b data = Inl e \<longrightarrow>
      \<not> AccAddress_validate b data pfx \<and> \<not> AccPubKey_validate b data pfx
    \<and> \<not> ValAddress_validate b data pfx \<and> \<not> ValPubKey_validate b data pfx
    \<and> \<not> ValConsAddress_validate b data pfx)
 \<and> (decode b data = Inr v \<and> length (words v) \<noteq> 32 \<and> length (words v) \<noteq> 52 \<longrightarrow>
      \<not> AccAddress_validate b data pfx)
 \<and> (decode b data = Inr v \<and> length (words v) \<noteq> 32 \<longrightarrow>
      \<not> AccPubKey_validate b data pfx \<and> \<not> ValAddress_validate b data pfx
    \<and> \<not> ValPubKey_validate b data pfx \<and> \<not> ValConsAddress_validate b data pfx)"
  unfolding suffixed_validate_defs
  using AccAddress_validate_iff [of b data pfx]
    suffixed_validate_iff [where pfx = pfx and b = b and data = data and suffix = "''pub''"]
    suffixed_validate_iff [where pfx = pfx and b = b and data = data and suffix = "''valoper''"]
    suffixed_validate_iff [where pfx = pfx and b = b and data = data and suffix = "''valoperpub''"]
    suffixed_validate_iff [where pfx = pfx and b = b and data = data and suffix = "''valcons''"]
  by auto

text \<open>
  The string of the specification's own test, which has no separator, with and without an
  expected prefix, and a well-formed string whose payload is empty.
\<close>

theorem validate_false_on_failure_witness:
  "decode bech32 ''not-a-valid-bech32-string'' = Inl NoSeparator
   \<and> \<not> AccAddress_validate bech32 ''not-a-valid-bech32-string'' None
   \<and> \<not> AccPubKey_validate bech32 ''not-a-valid-bech32-string'' None
   \<and> \<not> ValAddress_validate bech32 ''not-a-valid-bech32-string'' (Some ''terra'')
   \<and> \<not> ValPubKey_validate bech32 ''not-a-valid-bech32-string'' None
   \<and> \<not> ValConsAddress_validate bech32 ''not-a-valid-bech32-string'' None
   \<and> decode bech32 ''a12uel5l'' = Inr \<lparr>prefix = ''a'', words = []\<rparr>
   \<and> \<not> AccAddress_validate bech32 ''a12uel5l'' (Some ''a'')
   \<and> \<not> AccPubKey_validate bech32 ''a12uel5l'' None
   \<and> \<not> ValAddress_validate bech32 ''a12uel5l'' None
   \<and> \<not> ValPubKey_validate bech32 ''a12uel5l'' None
   \<and> \<not> ValConsAddress_validate bech32 ''a12uel5l'' None"
  using
    validate_false_on_failure [where b = bech32 and data = "''not-a-valid-bech32-string''"
      and e = NoSeparator and pfx = None]
    validate_false_on_failure [where b = bech32 and data = "''not-a-valid-bech32-string''"
      and e = NoSeparator and pfx = "Some ''terra''"]
    validate_false_on_failure [where b = bech32 and data = "''a12uel5l''"
      and v = "\<lparr>prefix = ''a'', words = []\<rparr>" and pfx = None]
    validate_false_on_failure [where b = bech32 and data = "''a12uel5l''"
      and v = "\<lparr>prefix = ''a'', words = []\<rparr>" and pfx = "Some ''a''"]
  by (simp add: decode_not_bech32 decode_no_words)

text \<open>
  C6. Let \<open>a\<close> be a valid account address: it decodes, its decoded prefix is the root
  prefix \<open>p\<close>, which is not empty, and its decoded payload has one of the two account
  lengths, 32 or 52 words. Then \<open>AccAddress_validate a p\<close> is true and
  \<open>AccAddress_validate a (p + "x")\<close> is false.
\<close>

theorem AccAddress_validate_expected_prefix:
  assumes "decode b a = Inr v"
    and "length (words v) = 32 \<or> length (words v) = 52"
    and "prefix v \<noteq> []"
  shows "AccAddress_validate b a (Some (prefix v))
       \<and> \<not> AccAddress_validate b a (Some (prefix v @ ''x''))"
  using assms by (auto simp: AccAddress_validate_iff)

text \<open>An account address of 32 words and one of 52 words.\<close>

theorem AccAddress_validate_expected_prefix_witness:
  "decode bech32 account_address = Inr \<lparr>prefix = ''terra'', words = sample_words\<rparr>
   \<and> length sample_words = 32
   \<and> AccAddress_validate bech32 account_address (Some ''terra'')
   \<and> \<not> AccAddress_validate bech32 account_address (Some ''terrax'')
   \<and> decode bech32 long_root_address
       = Inr \<lparr>prefix = ''abcdefghijklmnopqrstuvwxy'', words = replicate 52 0\<rparr>
   \<and> length (replicate 52 (0::nat)) = 52
   \<and> AccAddress_validate bech32 long_root_address (Some ''abcdefghijklmnopqrstuvwxy'')
   \<and> \<not> AccAddress_validate bech32 long_root_address (Some ''abcdefghijklmnopqrstuvwxyx'')"
  using AccAddress_validate_expected_prefix [OF decode_account]
    AccAddress_validate_expected_prefix [OF decode_long_prefix]
  by (simp add: decode_account decode_long_prefix)

section \<open>Derivations\<close>

lemma roundtripsD:
  "roundtrips b q ws \<Longrightarrow>
   \<exists>s. encode b q ws = Inr s \<and> decode b s = Inr \<lparr>prefix = q, words = ws\<rparr>"
  by (auto simp: roundtrips_def split: sum.splits)

lemma substring_strip: "substring (p @ t) 0 (int (length (p @ t)) - int (length t)) = p"
  by (simp add: substring_def)

lemma substring_take: "substring s 0 (int (length s) - int n) = take (length s - n) s"
proof -
  have "nat (int (length s) - int n) = length s - n" by arith
  then show ?thesis by (auto simp: substring_def Let_def min_def max_def)
qed

lemma strip_seven: "substring s 0 (int (length s) - 7) = take (length s - 7) s"
  using substring_take [of s 7] by simp

lemma strip_seven_samples:
  "substring ''terravaloper'' 0 5 = ''terra''"
  "substring ''terravalcons'' 0 5 = ''terra''"
  "substring ''terra'' 0 (- 2) = []"
  by (simp_all add: substring_def)

lemmas derivation_defs =
  ValAddress_fromAccAddress_def AccPubKey_fromAccAddress_def ValPubKey_fromValAddress_def
  AccAddress_fromValAddress_def

lemmas getPrefix_defs =
  AccAddress_getPrefix_def AccPubKey_getPrefix_def ValAddress_getPrefix_def
  ValPubKey_getPrefix_def ValConsAddress_getPrefix_def

subsection \<open>Derivations with the bech32 codec\<close>

lemma bech32_words_bound:
  assumes "decode bech32 a = Inr v"
  shows "\<forall>w\<in>set (words v). w < 32"
  using assms bech32_decode_words [of a v] by (simp add: bech32_def)

lemma lower_case_append:
  assumes "\<forall>ch\<in>set p. (33::nat) \<le> of_char ch \<and> of_char ch \<le> (126::nat) \<and> toLowerCase_char ch = ch"
    and "suffix \<in> {''valoper'', ''pub'', ''valoperpub''}"
  shows "\<forall>ch\<in>set (p @ suffix).
           (33::nat) \<le> of_char ch \<and> of_char ch \<le> (126::nat) \<and> toLowerCase_char ch = ch"
  using assms by (auto simp: toLowerCase_char_def)

lemma bech32_roundtrips_suffix:
  assumes "decode bech32 a = Inr v"
    and "\<forall>ch\<in>set p. (33::nat) \<le> of_char ch \<and> of_char ch \<le> (126::nat) \<and> toLowerCase_char ch = ch"
    and "suffix \<in> {''valoper'', ''pub'', ''valoperpub''}"
    and "length p + length suffix + 7 + length (words v) \<le> 90"
  shows "roundtrips bech32 (p @ suffix) (words v)"
proof (rule bech32_roundtrips)
  show "p @ suffix \<noteq> []" using assms(3) by auto
  show "\<forall>ch\<in>set (p @ suffix).
           (33::nat) \<le> of_char ch \<and> of_char ch \<le> (126::nat) \<and> toLowerCase_char ch = ch"
    using assms(2,3) by (rule lower_case_append)
  show "\<forall>w\<in>set (words v). w < 32" using assms(1) by (rule bech32_words_bound)
  show "length (p @ suffix) + 7 + length (words v) \<le> 90" using assms(4) by simp
qed

text \<open>
  For the bech32 codec the condition of the amended claims is met by every root prefix of
  printable characters without upper-case letters, as long as the derived string has at
  most 90 characters.
\<close>

lemma bech32_derivations:
  assumes "decode bech32 a = Inr v"
    and "\<forall>ch\<in>set p. (33::nat) \<le> of_char ch \<and> of_char ch \<le> (126::nat) \<and> toLowerCase_char ch = ch"
  shows "length p + 14 + length (words v) \<le> 90 \<longrightarrow>
           (\<exists>s. ValAddress_fromAccAddress bech32 a p = Inr s
              \<and> decode bech32 s = Inr \<lparr>prefix = p @ ''valoper'', words = words v\<rparr>
              \<and> ValAddress_getPrefix bech32 s = Inr p)"
    and "length p + 10 + length (words v) \<le> 90 \<longrightarrow>
           (\<exists>s. AccPubKey_fromAccAddress bech32 a p = Inr s
              \<and> decode bech32 s = Inr \<lparr>prefix = p @ ''pub'', words = words v\<rparr>
              \<and> AccPubKey_getPrefix bech32 s = Inr p)"
    and "length p + 17 + length (words v) \<le> 90 \<longrightarrow>
           (\<exists>s. ValPubKey_fromValAddress bech32 a p = Inr s
              \<and> decode bech32 s = Inr \<lparr>prefix = p @ ''valoperpub'', words = words v\<rparr>
              \<and> ValPubKey_getPrefix bech32 s = Inr p)"
proof -
  note rt = bech32_roundtrips_suffix [OF assms, THEN roundtripsD]
  show "length p + 14 + length (words v) \<le> 90 \<longrightarrow>
           (\<exists>s. ValAddress_fromAccAddress bech32 a p = Inr s
              \<and> decode bech32 s = Inr \<lparr>prefix = p @ ''valoper'', words = words v\<rparr>
              \<and> ValAddress_getPrefix bech32 s = Inr p)"
    using rt [of "''valoper''"] assms(1) substring_strip [of p "''valoper''"]
    by (auto simp: derivation_defs getPrefix_defs)
  show "length p + 10 + length (words v) \<le> 90 \<longrightarrow>
           (\<exists>s. AccPubKey_fromAccAddress bech32 a p = Inr s
              \<and> decode bech32 s = Inr \<lparr>prefix = p @ ''pub'', words = words v\<rparr>
              \<and> AccPubKey_getPrefix bech32 s = Inr p)"
    using rt [of "''pub''"] assms(1) substring_strip [of p "''pub''"]
    by (auto simp: derivation_defs getPrefix_defs)
  show "length p + 17 + length (words v) \<le> 90 \<longrightarrow>
           (\<exists>s. ValPubKey_fromValAddress bech32 a p = Inr s
              \<and> decode bech32 s = Inr \<lparr>prefix = p @ ''valoperpub'', words = words v\<rparr>
              \<and> ValPubKey_getPrefix bech32 s = Inr p)"
    using rt [of "''valoperpub''"] assms(1) substring_strip [of p "''valoperpub''"]
    by (auto simp: derivation_defs getPrefix_defs)
qed

lemma prefixChk_high_range:
  assumes "prefixChk_high q chk = Inr r"
  shows "\<forall>ch\<in>set q. (33::nat) \<le> of_char ch \<and> of_char ch \<le> (126::nat)"
  using assms by (induction q arbitrary: chk) (auto split: if_splits)

lemma bech32_decode_prefix:
  assumes "bech32_decode a = Inr v"
  shows "\<forall>ch\<in>set (prefix v). (33::nat) \<le> of_char ch \<and> of_char ch \<le> (126::nat)"
proof -
  from assms obtain s n where "decode_split s n = Inr v"
    by (auto simp: bech32_decode_def split: if_splits option.splits)
  then obtain r where "prefixChk (prefix v) = Inr r"
    by (auto simp: decode_split_def split: if_splits sum.splits prod.splits)
  then obtain r' where "prefixChk_high (prefix v) 1 = Inr r'"
    by (auto simp: prefixChk_def split: sum.splits)
  then show ?thesis by (rule prefixChk_high_range)
qed

lemma bech32_decode_lower_prefix:
  assumes "bech32_decode a = Inr v" and "toLowerCase a = a"
  shows "\<forall>ch\<in>set (prefix v). toLowerCase_char ch = ch"
proof -
  from assms obtain n where "decode_split a n = Inr v"
    by (auto simp: bech32_decode_def split: if_splits option.splits)
  then have p: "prefix v = take n a"
    by (auto simp: decode_split_def split: if_splits sum.splits prod.splits)
  have "\<forall>ch\<in>set a. toLowerCase_char ch = ch"
    using assms(2) unfolding toLowerCase_def by (metis map_eq_conv list.map_id0 id_apply)
  then show ?thesis unfolding p by (auto dest: in_set_takeD)
qed

text \<open>
  For the bech32 codec the conditions of the amended round trip are met by every
  lower-case string that decodes, as long as the operator address has at most 90
  characters.
\<close>

lemma bech32_account_operator_roundtrip:
  assumes "decode bech32 a = Inr v" and "toLowerCase a = a"
    and "length (prefix v) + 14 + length (words v) \<le> 90"
  shows "\<exists>s. ValAddress_fromAccAddress bech32 a (prefix v) = Inr s
           \<and> AccAddress_fromValAddress bech32 s = Inr a"
proof -
  have d: "bech32_decode a = Inr v" using assms(1) by (simp add: bech32_def)
  have "\<forall>ch\<in>set (prefix v).
          (33::nat) \<le> of_char ch \<and> of_char ch \<le> (126::nat) \<and> toLowerCase_char ch = ch"
    using bech32_decode_prefix [OF d] bech32_decode_lower_prefix [OF d assms(2)] by blast
  from bech32_roundtrips_suffix [OF assms(1) this, of "''valoper''"] assms(3)
  have "roundtrips bech32 (prefix v @ ''valoper'') (words v)" by simp
  from roundtripsD [OF this] obtain s where
    s: "encode bech32 (prefix v @ ''valoper'') (words v) = Inr s"
       "decode bech32 s = Inr \<lparr>prefix = prefix v @ ''valoper'', words = words v\<rparr>"
    by blast
  have canon: "encode bech32 (prefix v) (words v) = Inr a"
    using bech32_encode_decode [OF d assms(2)] by (simp add: bech32_def)
  have "ValAddress_fromAccAddress bech32 a (prefix v) = Inr s"
    using assms(1) s(1) by (simp add: ValAddress_fromAccAddress_def)
  moreover have "AccAddress_fromValAddress bech32 s = Inr a"
    using s(2) canon substring_strip [of "prefix v" "''valoper''"]
    by (simp add: AccAddress_fromValAddress_def)
  ultimately show ?thesis by blast
qed

text \<open>
  In particular no derivation fails on the addresses the validators accept (payloads of 32
  or 52 words) under a root prefix of at most 20 lower-case letters.
\<close>

lemma bech32_derivations_of_addresses:
  assumes "decode bech32 a = Inr v" and "length (words v) \<le> 52"
    and "list_all is_lower p" and "length p \<le> 20"
  shows "\<exists>s. ValAddress_fromAccAddress bech32 a p = Inr s
           \<and> decode bech32 s = Inr \<lparr>prefix = p @ ''valoper'', words = words v\<rparr>
           \<and> ValAddress_getPrefix bech32 s = Inr p"
    and "\<exists>s. AccPubKey_fromAccAddress bech32 a p = Inr s
           \<and> decode bech32 s = Inr \<lparr>prefix = p @ ''pub'', words = words v\<rparr>
           \<and> AccPubKey_getPrefix bech32 s = Inr p"
    and "\<exists>s. ValPubKey_fromValAddress bech32 a p = Inr s
           \<and> decode bech32 s = Inr \<lparr>prefix = p @ ''valoperpub'', words = words v\<rparr>
           \<and> ValPubKey_getPrefix bech32 s = Inr p"
proof -
  have p: "\<forall>ch\<in>set p.
      (33::nat) \<le> of_char ch \<and> of_char ch \<le> (126::nat) \<and> toLowerCase_char ch = ch"
    using assms(3) by (auto simp: list_all_iff is_lower_def toLowerCase_char_def)
  note d = bech32_derivations [OF assms(1) p]
  show "\<exists>s. ValAddress_fromAccAddress bech32 a p = Inr s
           \<and> decode bech32 s = Inr \<lparr>prefix = p @ ''valoper'', words = words v\<rparr>
           \<and> ValAddress_getPrefix bech32 s = Inr p"
    using d(1) assms(2,4) by simp
  show "\<exists>s. AccPubKey_fromAccAddress bech32 a p = Inr s
           \<and> decode bech32 s = Inr \<lparr>prefix = p @ ''pub'', words = words v\<rparr>
           \<and> AccPubKey_getPrefix bech32 s = Inr p"
    using d(2) assms(2,4) by simp
  show "\<exists>s. ValPubKey_fromValAddress bech32 a p = Inr s
           \<and> decode bech32 s = Inr \<lparr>prefix = p @ ''valoperpub'', words = words v\<rparr>
           \<and> ValPubKey_getPrefix bech32 s = Inr p"
    using d(3) assms(2,4) by simp
qed

subsection \<open>Further sample strings\<close>

lemma encode_operator: "encode bech32 ''terravaloper'' sample_words = Inr operator_address"
  by code_simp

lemma decode_operator: "decode bech32 operator_address = Inr \<lparr>prefix = ''terravaloper'', words = sample_words\<rparr>"
  by code_simp

lemma encode_pubkey: "encode bech32 ''terrapub'' sample_words = Inr account_pubkey"
  by code_simp

lemma decode_pubkey: "decode bech32 account_pubkey = Inr \<lparr>prefix = ''terrapub'', words = sample_words\<rparr>"
  by code_simp

lemma encode_operator_pubkey: "encode bech32 ''terravaloperpub'' sample_words = Inr operator_pubkey"
  by code_simp

lemma decode_operator_pubkey: "decode bech32 operator_pubkey = Inr \<lparr>prefix = ''terravaloperpub'', words = sample_words\<rparr>"
  by code_simp

lemma encode_account: "encode bech32 ''terra'' sample_words = Inr account_address"
  by code_simp

lemma encode_upper_case_prefix: "encode bech32 ''TERRAvaloper'' sample_words = Inr operator_address"
  by code_simp

lemma encode_empty_prefix: "encode bech32 '''' sample_words = Inr no_prefix_string"
  by code_simp

lemma decode_consensus: "decode bech32 consensus_address = Inr \<lparr>prefix = ''terravalcons'', words = sample_words\<rparr>"
  by code_simp

lemma decode_upper_case: "decode bech32 upper_case_address = Inr \<lparr>prefix = ''terra'', words = sample_words\<rparr>"
  by code_simp

lemma decode_long_payload:
  "decode bech32 long_payload_string
     = Inr \<lparr>prefix = ''a'', words = replicate 80 0\<rparr>"
  by code_simp

lemma encode_over_limit:
  "90 < length q + 7 + length ws \<Longrightarrow> encode bech32 q ws = Inl ExceedsLengthLimit"
  by (simp add: bech32_def bech32_encode_def)

lemma roundtrips_samples:
  "roundtrips bech32 ''terravaloper'' sample_words"
  "roundtrips bech32 ''terrapub'' sample_words"
  "roundtrips bech32 ''terravaloperpub'' sample_words"
  by (simp_all add: roundtrips_def encode_operator decode_operator encode_pubkey decode_pubkey
      encode_operator_pubkey decode_operator_pubkey)

subsection \<open>Payload preservation\<close>

text \<open>
  C3, as amended. Let \<open>a\<close> decode to a prefix and payload words, and let \<open>p\<close> be a root
  prefix. Each derivation (\<open>ValAddress_fromAccAddress\<close>, \<open>AccPubKey_fromAccAddress\<close>,
  \<open>ValPubKey_fromValAddress\<close>) returns what the codec's \<open>encode\<close> returns for \<open>p\<close> followed by
  the family suffix and the payload words of \<open>a\<close>, unchanged. Whenever the codec encodes
  that pair to a string which decodes to the same pair, the derivation returns a string,
  and decoding it yields the payload words of \<open>a\<close> and the prefix \<open>p\<close> followed by
  \<^verbatim>\<open>valoper\<close>, \<^verbatim>\<open>pub\<close> or \<^verbatim>\<open>valoperpub\<close>. The bech32 codec does so whenever \<open>p\<close> consists
  of characters 33 to 126 without upper-case letters and the derived string has at most 90
  characters (\<open>bech32_derivations\<close>).
\<close>

theorem derivation_preserves_payload:
  assumes "decode b a = Inr v"
  shows "ValAddress_fromAccAddress b a p = encode b (p @ ''valoper'') (words v)
       \<and> AccPubKey_fromAccAddress b a p = encode b (p @ ''pub'') (words v)
       \<and> ValPubKey_fromValAddress b a p = encode b (p @ ''valoperpub'') (words v)
       \<and> (roundtrips b (p @ ''valoper'') (words v) \<longrightarrow>
            (\<exists>s. ValAddress_fromAccAddress b a p = Inr s
               \<and> decode b s = Inr \<lparr>prefix = p @ ''valoper'', words = words v\<rparr>))
       \<and> (roundtrips b (p @ ''pub'') (words v) \<longrightarrow>
            (\<exists>s. AccPubKey_fromAccAddress b a p = Inr s
               \<and> decode b s = Inr \<lparr>prefix = p @ ''pub'', words = words v\<rparr>))
       \<and> (roundtrips b (p @ ''valoperpub'') (words v) \<longrightarrow>
            (\<exists>s. ValPubKey_fromValAddress b a p = Inr s
               \<and> decode b s = Inr \<lparr>prefix = p @ ''valoperpub'', words = words v\<rparr>))"
  using assms by (auto simp: derivation_defs dest: roundtripsD)

theorem derivation_preserves_payload_witness:
  "decode bech32 account_address = Inr \<lparr>prefix = ''terra'', words = sample_words\<rparr>
   \<and> ValAddress_fromAccAddress bech32 account_address ''terra''
       = Inr operator_address
   \<and> decode bech32 operator_address = Inr \<lparr>prefix = ''terravaloper'', words = sample_words\<rparr>
   \<and> AccPubKey_fromAccAddress bech32 account_address ''terra''
       = Inr account_pubkey
   \<and> decode bech32 account_pubkey = Inr \<lparr>prefix = ''terrapub'', words = sample_words\<rparr>
   \<and> ValPubKey_fromValAddress bech32 account_address ''terra''
       = Inr operator_pubkey
   \<and> decode bech32 operator_pubkey = Inr \<lparr>prefix = ''terravaloperpub'', words = sample_words\<rparr>"
  using derivation_preserves_payload [OF decode_account, of "''terra''"] roundtrips_samples
  by (simp add: decode_account encode_operator decode_operator encode_pubkey decode_pubkey
      encode_operator_pubkey decode_operator_pubkey)

text \<open>
  The claim as stated, for every string that decodes and every root prefix, fails where
  the codec refuses to encode: a string with the prefix \<^verbatim>\<open>a\<close> and a payload of 80 words
  decodes, and with the root prefix \<^verbatim>\<open>terra\<close> each derivation raises, the result being
  longer than the codec's limit of 90 characters. It fails as well where the codec changes
  the prefix it is given: the operator address derived under the root prefix \<^verbatim>\<open>TERRA\<close>
  decodes to the prefix \<^verbatim>\<open>terravaloper\<close>.
\<close>

theorem derivation_counterexample:
  "decode bech32 long_payload_string
     = Inr \<lparr>prefix = ''a'', words = replicate 80 0\<rparr>
   \<and> ValAddress_fromAccAddress bech32 long_payload_string ''terra''
       = Inl ExceedsLengthLimit
   \<and> AccPubKey_fromAccAddress bech32 long_payload_string ''terra''
       = Inl ExceedsLengthLimit
   \<and> ValPubKey_fromValAddress bech32 long_payload_string ''terra''
       = Inl ExceedsLengthLimit
   \<and> decode bech32 account_address = Inr \<lparr>prefix = ''terra'', words = sample_words\<rparr>
   \<and> ValAddress_fromAccAddress bech32 account_address ''TERRA''
       = Inr operator_address
   \<and> decode bech32 operator_address = Inr \<lparr>prefix = ''terravaloper'', words = sample_words\<rparr>
   \<and> ''terravaloper'' \<noteq> ''TERRA'' @ ''valoper''"
  by (simp add: derivation_defs decode_long_payload encode_over_limit decode_account
      encode_upper_case_prefix decode_operator)

subsection \<open>Account and operator addresses\<close>

text \<open>
  C4, as amended. Let \<open>a\<close> be an account address that decodes to the root prefix \<open>p\<close> and
  a payload, such that \<open>a\<close> is the string the codec encodes that pair to, and such that the
  codec encodes \<open>p\<close> followed by \<^verbatim>\<open>valoper\<close> with the same payload to a string which decodes
  to that pair. Then \<open>ValAddress_fromAccAddress a p\<close> returns a string, and
  \<open>AccAddress_fromValAddress\<close> of that string returns \<open>a\<close>. With the bech32 codec these
  conditions hold for every lower-case string that decodes and whose operator address has
  at most 90 characters (\<open>bech32_account_operator_roundtrip\<close>).
\<close>

theorem account_operator_roundtrip:
  assumes "decode b a = Inr v"
    and "encode b (prefix v) (words v) = Inr a"
    and "roundtrips b (prefix v @ ''valoper'') (words v)"
  shows "\<exists>s. ValAddress_fromAccAddress b a (prefix v) = Inr s
           \<and> AccAddress_fromValAddress b s = Inr a"
proof -
  from roundtripsD [OF assms(3)] obtain s where
    s: "encode b (prefix v @ ''valoper'') (words v) = Inr s"
       "decode b s = Inr \<lparr>prefix = prefix v @ ''valoper'', words = words v\<rparr>"
    by blast
  have "ValAddress_fromAccAddress b a (prefix v) = Inr s"
    using assms(1) s(1) by (simp add: ValAddress_fromAccAddress_def)
  moreover have "AccAddress_fromValAddress b s = Inr a"
    using s(2) assms(2) substring_strip [of "prefix v" "''valoper''"]
    by (simp add: AccAddress_fromValAddress_def)
  ultimately show ?thesis by blast
qed

theorem account_operator_roundtrip_witness:
  "AccAddress_validate bech32 account_address (Some ''terra'')
   \<and> ValAddress_fromAccAddress bech32 account_address ''terra''
       = Inr operator_address
   \<and> AccAddress_fromValAddress bech32 operator_address
       = Inr account_address"
proof -
  have "AccAddress_validate bech32 account_address (Some ''terra'')"
    by (simp add: AccAddress_validate_iff decode_account)
  moreover have "ValAddress_fromAccAddress bech32 account_address ''terra''
       = Inr operator_address"
    by (simp add: derivation_defs decode_account encode_operator)
  ultimately show ?thesis
    using account_operator_roundtrip [OF decode_account] roundtrips_samples(1) encode_account
    by simp
qed

text \<open>
  The claim as stated fails in two ways. The upper-case form of a valid account address
  is a valid account address with the root prefix \<^verbatim>\<open>terra\<close>, and the round trip returns the
  lower-case string. A valid account address with a root prefix of 25 characters and a
  payload of 52 words has 84 characters, and its operator address would exceed the limit
  of the codec: the derivation raises.
\<close>

theorem account_operator_roundtrip_counterexample:
  "AccAddress_validate bech32 upper_case_address (Some ''terra'')
   \<and> decode bech32 upper_case_address = Inr \<lparr>prefix = ''terra'', words = sample_words\<rparr>
   \<and> ValAddress_fromAccAddress bech32 upper_case_address ''terra''
       = Inr operator_address
   \<and> AccAddress_fromValAddress bech32 operator_address
       = Inr account_address
   \<and> account_address
       \<noteq> upper_case_address
   \<and> AccAddress_validate bech32
         long_root_address
         (Some ''abcdefghijklmnopqrstuvwxy'')
   \<and> decode bech32 long_root_address
       = Inr \<lparr>prefix = ''abcdefghijklmnopqrstuvwxy'', words = replicate 52 0\<rparr>
   \<and> ValAddress_fromAccAddress bech32
         long_root_address
         ''abcdefghijklmnopqrstuvwxy''
       = Inl ExceedsLengthLimit"
  by (simp add: AccAddress_validate_iff derivation_defs decode_upper_case encode_operator
      decode_operator encode_account decode_long_prefix encode_over_limit strip_seven_samples)

subsection \<open>The root prefix of a derived string\<close>

text \<open>
  C5, as amended. Let \<open>a\<close> decode to a prefix and payload words and let \<open>p\<close> be a root
  prefix. For each derivable family (\<open>ValAddress\<close>, \<open>AccPubKey\<close>, \<open>ValPubKey\<close>): whenever the
  codec encodes \<open>p\<close> followed by the family suffix with the payload of \<open>a\<close> to a string which
  decodes to that pair, the derivation returns a string and the family's \<open>getPrefix\<close> of it
  returns exactly \<open>p\<close>. The bech32 codec does so under the conditions given for C3.
\<close>

theorem getPrefix_of_derivation:
  assumes "decode b a = Inr v"
  shows "(roundtrips b (p @ ''valoper'') (words v) \<longrightarrow>
            (\<exists>s. ValAddress_fromAccAddress b a p = Inr s \<and> ValAddress_getPrefix b s = Inr p))
       \<and> (roundtrips b (p @ ''pub'') (words v) \<longrightarrow>
            (\<exists>s. AccPubKey_fromAccAddress b a p = Inr s \<and> AccPubKey_getPrefix b s = Inr p))
       \<and> (roundtrips b (p @ ''valoperpub'') (words v) \<longrightarrow>
            (\<exists>s. ValPubKey_fromValAddress b a p = Inr s \<and> ValPubKey_getPrefix b s = Inr p))"
proof (intro conjI impI)
  assume "roundtrips b (p @ ''valoper'') (words v)"
  from roundtripsD [OF this] assms substring_strip [of p "''valoper''"]
  show "\<exists>s. ValAddress_fromAccAddress b a p = Inr s \<and> ValAddress_getPrefix b s = Inr p"
    by (auto simp: derivation_defs getPrefix_defs)
next
  assume "roundtrips b (p @ ''pub'') (words v)"
  from roundtripsD [OF this] assms substring_strip [of p "''pub''"]
  show "\<exists>s. AccPubKey_fromAccAddress b a p = Inr s \<and> AccPubKey_getPrefix b s = Inr p"
    by (auto simp: derivation_defs getPrefix_defs)
next
  assume "roundtrips b (p @ ''valoperpub'') (words v)"
  from roundtripsD [OF this] assms substring_strip [of p "''valoperpub''"]
  show "\<exists>s. ValPubKey_fromValAddress b a p = Inr s \<and> ValPubKey_getPrefix b s = Inr p"
    by (auto simp: derivation_defs getPrefix_defs)
qed

theorem getPrefix_of_derivation_witness:
  "ValAddress_fromAccAddress bech32 account_address ''terra''
       = Inr operator_address
   \<and> ValAddress_getPrefix bech32 operator_address = Inr ''terra''
   \<and> AccPubKey_fromAccAddress bech32 account_address ''terra''
       = Inr account_pubkey
   \<and> AccPubKey_getPrefix bech32 account_pubkey = Inr ''terra''
   \<and> ValPubKey_fromValAddress bech32 account_address ''terra''
       = Inr operator_pubkey
   \<and> ValPubKey_getPrefix bech32 operator_pubkey = Inr ''terra''"
  using getPrefix_of_derivation [OF decode_account, of "''terra''"] roundtrips_samples
  by (simp add: derivation_defs decode_account encode_operator encode_pubkey
      encode_operator_pubkey)

text \<open>
  The claim as stated fails where the codec refuses to encode, so that there is no derived
  string to take the prefix of, and where the codec changes the prefix it is given: with
  the root prefix \<^verbatim>\<open>TERRA\<close> the derived operator address has the prefix
  \<^verbatim>\<open>terravaloper\<close>, and \<open>getPrefix\<close> returns \<^verbatim>\<open>terra\<close>.
\<close>

theorem getPrefix_of_derivation_counterexample:
  "decode bech32 long_payload_string
     = Inr \<lparr>prefix = ''a'', words = replicate 80 0\<rparr>
   \<and> ValAddress_fromAccAddress bech32 long_payload_string ''terra''
       = Inl ExceedsLengthLimit
   \<and> decode bech32 account_address = Inr \<lparr>prefix = ''terra'', words = sample_words\<rparr>
   \<and> ValAddress_fromAccAddress bech32 account_address ''TERRA''
       = Inr operator_address
   \<and> ValAddress_getPrefix bech32 operator_address = Inr ''terra''
   \<and> ''terra'' \<noteq> ''TERRA''"
  by (simp add: derivation_defs getPrefix_defs decode_long_payload encode_over_limit
      decode_account encode_upper_case_prefix decode_operator strip_seven_samples)

subsection \<open>Errors\<close>

text \<open>
  C7, as amended. For every family, \<open>getPrefix\<close> raises if and only if the decoder raises
  on its input. Whenever the decoder raises on the input of a \<open>getPrefix\<close> or of a
  derivation, the operation raises that same error, unmodified: no operation turns a
  decode failure into a value. A derivation raises only then or when the decoder succeeds
  and the codec's \<open>encode\<close> raises on the new prefix and the payload, and the error is then
  that of \<open>encode\<close>.
\<close>

theorem errors_propagate:
  "(isl (AccAddress_getPrefix b a) \<longleftrightarrow> isl (decode b a))
 \<and> (isl (AccPubKey_getPrefix b a) \<longleftrightarrow> isl (decode b a))
 \<and> (isl (ValAddress_getPrefix b a) \<longleftrightarrow> isl (decode b a))
 \<and> (isl (ValPubKey_getPrefix b a) \<longleftrightarrow> isl (decode b a))
 \<and> (isl (ValConsAddress_getPrefix b a) \<longleftrightarrow> isl (decode b a))
 \<and> (decode b a = Inl e \<longrightarrow>
        AccAddress_getPrefix b a = Inl e \<and> AccPubKey_getPrefix b a = Inl e
      \<and> ValAddress_getPrefix b a = Inl e \<and> ValPubKey_getPrefix b a = Inl e
      \<and> ValConsAddress_getPrefix b a = Inl e
      \<and> AccAddress_fromValAddress b a = Inl e \<and> AccPubKey_fromAccAddress b a p = Inl e
      \<and> ValAddress_fromAccAddress b a p = Inl e \<and> ValPubKey_fromValAddress b a p = Inl e)
 \<and> (AccAddress_fromValAddress b a = Inl e \<longrightarrow>
        decode b a = Inl e
      \<or> (\<exists>v. decode b a = Inr v
            \<and> encode b (take (length (prefix v) - 7) (prefix v)) (words v) = Inl e))
 \<and> (AccPubKey_fromAccAddress b a p = Inl e \<longrightarrow>
        decode b a = Inl e
      \<or> (\<exists>v. decode b a = Inr v \<and> encode b (p @ ''pub'') (words v) = Inl e))
 \<and> (ValAddress_fromAccAddress b a p = Inl e \<longrightarrow>
        decode b a = Inl e
      \<or> (\<exists>v. decode b a = Inr v \<and> encode b (p @ ''valoper'') (words v) = Inl e))
 \<and> (ValPubKey_fromValAddress b a p = Inl e \<longrightarrow>
        decode b a = Inl e
      \<or> (\<exists>v. decode b a = Inr v \<and> encode b (p @ ''valoperpub'') (words v) = Inl e))"
  by (cases "decode b a") (simp_all add: derivation_defs getPrefix_defs strip_seven)

theorem errors_propagate_witness:
  "decode bech32 ''not-a-valid-bech32-string'' = Inl NoSeparator
   \<and> AccAddress_getPrefix bech32 ''not-a-valid-bech32-string'' = Inl NoSeparator
   \<and> AccPubKey_getPrefix bech32 ''not-a-valid-bech32-string'' = Inl NoSeparator
   \<and> ValAddress_getPrefix bech32 ''not-a-valid-bech32-string'' = Inl NoSeparator
   \<and> ValPubKey_getPrefix bech32 ''not-a-valid-bech32-string'' = Inl NoSeparator
   \<and> ValConsAddress_getPrefix bech32 ''not-a-valid-bech32-string'' = Inl NoSeparator
   \<and> AccAddress_fromValAddress bech32 ''not-a-valid-bech32-string'' = Inl NoSeparator
   \<and> AccPubKey_fromAccAddress bech32 ''not-a-valid-bech32-string'' ''terra'' = Inl NoSeparator
   \<and> ValAddress_fromAccAddress bech32 ''not-a-valid-bech32-string'' ''terra'' = Inl NoSeparator
   \<and> ValPubKey_fromValAddress bech32 ''not-a-valid-bech32-string'' ''terra'' = Inl NoSeparator"
  using errors_propagate [where b = bech32 and a = "''not-a-valid-bech32-string''"
      and e = NoSeparator and p = "''terra''"]
  by (simp add: decode_not_bech32)

text \<open>
  The claim as stated, that a derivation raises only if the decoder raises, fails: the
  decoder accepts the account address of 84 characters below, and the derivation of its
  operator address under its own root prefix raises the error of \<open>encode\<close>.
\<close>

theorem errors_propagate_counterexample:
  "decode bech32 long_root_address
     = Inr \<lparr>prefix = ''abcdefghijklmnopqrstuvwxy'', words = replicate 52 0\<rparr>
   \<and> ValAddress_fromAccAddress bech32
         long_root_address
         ''abcdefghijklmnopqrstuvwxy''
       = Inl ExceedsLengthLimit"
  by (simp add: derivation_defs decode_long_prefix encode_over_limit)

subsection \<open>Stripping the operator suffix\<close>

text \<open>
  C9. \<open>AccAddress_fromValAddress\<close> re-encodes the payload under the decoded prefix without
  its last 7 characters, whatever these are: what it returns is what the codec's \<open>encode\<close>
  returns for the first \<open>length - 7\<close> characters of the decoded prefix (none when the prefix
  has at most 7) and the payload. No branch of the function looks at the characters it
  drops. So the account address with the prefix \<^verbatim>\<open>terra\<close>, which does not end in
  \<^verbatim>\<open>valoper\<close>, is re-encoded under the empty prefix, and a consensus address with the
  prefix \<^verbatim>\<open>terravalcons\<close> under \<^verbatim>\<open>terra\<close>; neither call raises.
\<close>

theorem fromValAddress_strips_seven:
  assumes "decode b a = Inr v"
  shows "AccAddress_fromValAddress b a
           = encode b (take (length (prefix v) - 7) (prefix v)) (words v)
       \<and> (7 \<le> length (prefix v) \<longrightarrow>
            (\<exists>t. length t = 7 \<and> prefix v = take (length (prefix v) - 7) (prefix v) @ t))
       \<and> (length (prefix v) \<le> 7 \<longrightarrow> take (length (prefix v) - 7) (prefix v) = [])"
proof -
  have "prefix v = take (length (prefix v) - 7) (prefix v) @ drop (length (prefix v) - 7) (prefix v)"
    by simp
  moreover have "7 \<le> length (prefix v) \<Longrightarrow> length (drop (length (prefix v) - 7) (prefix v)) = 7"
    by simp
  ultimately have "7 \<le> length (prefix v) \<longrightarrow>
      (\<exists>t. length t = 7 \<and> prefix v = take (length (prefix v) - 7) (prefix v) @ t)"
    by blast
  then show ?thesis
    using assms by (simp add: derivation_defs strip_seven)
qed

theorem fromValAddress_strips_seven_witness:
  "AccAddress_validate bech32 account_address None
   \<and> decode bech32 account_address = Inr \<lparr>prefix = ''terra'', words = sample_words\<rparr>
   \<and> AccAddress_fromValAddress bech32 account_address = Inr no_prefix_string
   \<and> decode bech32 consensus_address = Inr \<lparr>prefix = ''terravalcons'', words = sample_words\<rparr>
   \<and> AccAddress_fromValAddress bech32 consensus_address = Inr account_address
   \<and> decode bech32 operator_address = Inr \<lparr>prefix = ''terravaloper'', words = sample_words\<rparr>
   \<and> AccAddress_fromValAddress bech32 operator_address = Inr account_address"
  using fromValAddress_strips_seven [OF decode_account]
    fromValAddress_strips_seven [OF decode_consensus]
    fromValAddress_strips_seven [OF decode_operator]
  by (simp add: AccAddress_validate_iff decode_account decode_consensus decode_operator
      encode_empty_prefix encode_account)

subsection \<open>The pattern of a suffixed family\<close>

text \<open>
  What the four validators accept when no expected prefix is given: a payload of 32 words
  and a decoded prefix in which two lower-case letters stand before the suffix, with any
  text before them and after the suffix.
\<close>

lemma suffixed_validate_search:
  "AccPubKey_validate b data None \<longleftrightarrow>
     (\<exists>v u c d r. decode b data = Inr v \<and> length (words v) = 32
        \<and> prefix v = u @ [c, d] @ ''pub'' @ r \<and> is_lower c \<and> is_lower d)"
  "ValAddress_validate b data None \<longleftrightarrow>
     (\<exists>v u c d r. decode b data = Inr v \<and> length (words v) = 32
        \<and> prefix v = u @ [c, d] @ ''valoper'' @ r \<and> is_lower c \<and> is_lower d)"
  "ValPubKey_validate b data None \<longleftrightarrow>
     (\<exists>v u c d r. decode b data = Inr v \<and> length (words v) = 32
        \<and> prefix v = u @ [c, d] @ ''valoperpub'' @ r \<and> is_lower c \<and> is_lower d)"
  "ValConsAddress_validate b data None \<longleftrightarrow>
     (\<exists>v u c d r. decode b data = Inr v \<and> length (words v) = 32
        \<and> prefix v = u @ [c, d] @ ''valcons'' @ r \<and> is_lower c \<and> is_lower d)"
proof -
  have search: "regex_test suffix (toString (js_or (checkLength b data 32) (JString '''')))
      \<longleftrightarrow> (\<exists>v u c d r. decode b data = Inr v \<and> length (words v) = 32
            \<and> prefix v = u @ [c, d] @ suffix @ r \<and> is_lower c \<and> is_lower d)" for suffix
  proof -
    have "regex_test suffix (toString (js_or (checkLength b data 32) (JString '''')))
        \<longleftrightarrow> (\<exists>v. decode b data = Inr v \<and> length (words v) = 32
              \<and> regex_test suffix (prefix v))"
      using suffixed_validate_iff [where pfx = None and b = b and data = data
          and suffix = suffix]
      by simp
    also have "\<dots> \<longleftrightarrow> (\<exists>v u c d r. decode b data = Inr v \<and> length (words v) = 32
              \<and> prefix v = u @ [c, d] @ suffix @ r \<and> is_lower c \<and> is_lower d)"
      unfolding regex_test_two_letters by blast
    finally show ?thesis .
  qed
  show "AccPubKey_validate b data None \<longleftrightarrow>
     (\<exists>v u c d r. decode b data = Inr v \<and> length (words v) = 32
        \<and> prefix v = u @ [c, d] @ ''pub'' @ r \<and> is_lower c \<and> is_lower d)"
    using search [of "''pub''"] by (simp add: AccPubKey_validate_def)
  show "ValAddress_validate b data None \<longleftrightarrow>
     (\<exists>v u c d r. decode b data = Inr v \<and> length (words v) = 32
        \<and> prefix v = u @ [c, d] @ ''valoper'' @ r \<and> is_lower c \<and> is_lower d)"
    using search [of "''valoper''"] by (simp add: ValAddress_validate_def)
  show "ValPubKey_validate b data None \<longleftrightarrow>
     (\<exists>v u c d r. decode b data = Inr v \<and> length (words v) = 32
        \<and> prefix v = u @ [c, d] @ ''valoperpub'' @ r \<and> is_lower c \<and> is_lower d)"
    using search [of "''valoperpub''"] by (simp add: ValPubKey_validate_def)
  show "ValConsAddress_validate b data None \<longleftrightarrow>
     (\<exists>v u c d r. decode b data = Inr v \<and> length (words v) = 32
        \<and> prefix v = u @ [c, d] @ ''valcons'' @ r \<and> is_lower c \<and> is_lower d)"
    using search [of "''valcons''"] by (simp add: ValConsAddress_validate_def)
qed

lemma decode_long_root:
  "decode bech32 long_root_operator
     = Inr \<lparr>prefix = ''abcdefghijklmnopqrstuvwxyzvaloper'', words = sample_words\<rparr>"
  by code_simp

lemma regex_test_samples:
  "regex_test ''valoper'' ''terravaloperpub''"
  "regex_test ''valoper'' ''abcdefghijklmnopqrstuvwxyzvaloper''"
proof -
  have "''terravaloperpub'' = ''ter'' @ [CHR ''r'', CHR ''a''] @ ''valoper'' @ ''pub''
      \<and> is_lower (CHR ''r'') \<and> is_lower (CHR ''a'')"
    by (simp add: is_lower_def)
  then show "regex_test ''valoper'' ''terravaloperpub''"
    unfolding regex_test_two_letters by blast
  have "''abcdefghijklmnopqrstuvwxyzvaloper''
        = ''abcdefghijklmnopqrstuvwx'' @ [CHR ''y'', CHR ''z''] @ ''valoper'' @ []
      \<and> is_lower (CHR ''y'') \<and> is_lower (CHR ''z'')"
    by (simp add: is_lower_def)
  then show "regex_test ''valoper'' ''abcdefghijklmnopqrstuvwxyzvaloper''"
    unfolding regex_test_two_letters by blast
qed

text \<open>
  C8. Without an expected prefix, the validator of a suffixed family is meant to accept a
  decoded prefix made of a root prefix of 2 to 20 lower-case letters followed by the
  family's suffix. The search of the code has no anchors, and accepts more. The public key
  derived for a validator, whose prefix is \<^verbatim>\<open>terravaloperpub\<close>, passes
  \<open>ValAddress_validate\<close>, which refuses it when the expected prefix \<^verbatim>\<open>terra\<close> is given; and a
  root prefix of 26 letters passes as well.
\<close>

theorem ValAddress_validate_unanchored:
  "decode bech32 operator_pubkey
     = Inr \<lparr>prefix = ''terravaloperpub'', words = sample_words\<rparr>
   \<and> ValAddress_validate bech32 operator_pubkey None
   \<and> \<not> ValAddress_validate bech32 operator_pubkey (Some ''terra'')
   \<and> decode bech32 long_root_operator
     = Inr \<lparr>prefix = ''abcdefghijklmnopqrstuvwxyzvaloper'', words = sample_words\<rparr>
   \<and> length ''abcdefghijklmnopqrstuvwxyz'' = 26
   \<and> ValAddress_validate bech32 long_root_operator None"
  by (simp add: ValAddress_validate_iff decode_operator_pubkey decode_long_root
      regex_test_samples)

end
